theory Spec2Isabelle
  imports Complex_Main
begin

section \<open>Vectors and colours\<close>

text \<open>
  The simulation of \<^verbatim>\<open>src/Framer.tsx\<close> and \<^verbatim>\<open>src/components/ImageParticleEffect.tsx\<close>
  works on three.js \<^verbatim>\<open>Vector3\<close> and \<^verbatim>\<open>Color\<close> objects. Numbers are modelled as
  exact reals (the rounding of IEEE doubles is not modelled). Every \<^verbatim>\<open>copy\<close>,
  \<^verbatim>\<open>clone\<close> and in-place vector method of the source copies component values, so no
  two particle fields ever alias and a record of values is a faithful store.
\<close>

record vec3 =
  vx :: real
  vy :: real
  vz :: real

record rgb =
  cr :: real
  cg :: real
  cb :: real

definition mkv :: "real \<Rightarrow> real \<Rightarrow> real \<Rightarrow> vec3" where
  "mkv a b c = \<lparr>vx = a, vy = b, vz = c\<rparr>"

definition mkc :: "real \<Rightarrow> real \<Rightarrow> real \<Rightarrow> rgb" where
  "mkc a b c = \<lparr>cr = a, cg = b, cb = c\<rparr>"

text \<open>\<^verbatim>\<open>a.add(b)\<close>, \<^verbatim>\<open>subVectors(a, b)\<close>, \<^verbatim>\<open>multiplyScalar(s)\<close>, \<^verbatim>\<open>dot\<close>.\<close>

definition vadd :: "vec3 \<Rightarrow> vec3 \<Rightarrow> vec3" where
  "vadd a b = mkv (vx a + vx b) (vy a + vy b) (vz a + vz b)"

definition subVectors :: "vec3 \<Rightarrow> vec3 \<Rightarrow> vec3" where
  "subVectors a b = mkv (vx a - vx b) (vy a - vy b) (vz a - vz b)"

definition multiplyScalar :: "vec3 \<Rightarrow> real \<Rightarrow> vec3" where
  "multiplyScalar a s = mkv (vx a * s) (vy a * s) (vz a * s)"

definition vdot :: "vec3 \<Rightarrow> vec3 \<Rightarrow> real" where
  "vdot a b = vx a * vx b + vy a * vy b + vz a * vz b"

definition lengthSq :: "vec3 \<Rightarrow> real" where
  "lengthSq a = vx a * vx a + vy a * vy a + vz a * vz a"

definition vlength :: "vec3 \<Rightarrow> real" where
  "vlength a = sqrt (lengthSq a)"

definition distanceToSquared :: "vec3 \<Rightarrow> vec3 \<Rightarrow> real" where
  "distanceToSquared a b =
     (let dx = vx a - vx b; dy = vy a - vy b; dz = vz a - vz b
      in dx * dx + dy * dy + dz * dz)"

definition distanceTo :: "vec3 \<Rightarrow> vec3 \<Rightarrow> real" where
  "distanceTo a b = sqrt (distanceToSquared a b)"

text \<open>\<^verbatim>\<open>normalize()\<close> is \<^verbatim>\<open>divideScalar(length() || 1)\<close>: the zero vector stays zero.\<close>

definition normalize :: "vec3 \<Rightarrow> vec3" where
  "normalize a = multiplyScalar a (1 / (if vlength a = 0 then 1 else vlength a))"

definition crossVectors :: "vec3 \<Rightarrow> vec3 \<Rightarrow> vec3" where
  "crossVectors a b =
     mkv (vy a * vz b - vz a * vy b) (vz a * vx b - vx a * vz b) (vx a * vy b - vy a * vx b)"

text \<open>\<^verbatim>\<open>this.lerp(v, alpha)\<close> and \<^verbatim>\<open>lerpVectors(v1, v2, alpha)\<close>.\<close>

definition vlerp :: "vec3 \<Rightarrow> vec3 \<Rightarrow> real \<Rightarrow> vec3" where
  "vlerp a v alpha =
     mkv (vx a + (vx v - vx a) * alpha) (vy a + (vy v - vy a) * alpha) (vz a + (vz v - vz a) * alpha)"

definition lerpVectors :: "vec3 \<Rightarrow> vec3 \<Rightarrow> real \<Rightarrow> vec3" where
  "lerpVectors v1 v2 alpha =
     mkv (vx v1 + (vx v2 - vx v1) * alpha) (vy v1 + (vy v2 - vy v1) * alpha)
         (vz v1 + (vz v2 - vz v1) * alpha)"

definition clerp :: "rgb \<Rightarrow> rgb \<Rightarrow> real \<Rightarrow> rgb" where
  "clerp a c alpha =
     mkc (cr a + (cr c - cr a) * alpha) (cg a + (cg c - cg a) * alpha) (cb a + (cb c - cb a) * alpha)"

definition mlerp :: "real \<Rightarrow> real \<Rightarrow> real \<Rightarrow> real" where
  "mlerp a b t = (1 - t) * a + t * b"

definition setFromSphericalCoords :: "real \<Rightarrow> real \<Rightarrow> real \<Rightarrow> vec3" where
  "setFromSphericalCoords radius phi theta =
     (let sinPhiRadius = sin phi * radius
      in mkv (sinPhiRadius * sin theta) (cos phi * radius) (sinPhiRadius * cos theta))"

definition easeInOutCubic :: "real \<Rightarrow> real" where
  "easeInOutCubic t = (if t < 0.5 then 4 * t * t * t else 1 - (- 2 * t + 2) ^ 3 / 2)"

section \<open>Particles and component state\<close>

record particle =
  pid :: nat
  currentPosition :: vec3
  sourcePosition :: vec3
  targetPosition :: vec3
  velocity :: vec3
  currentColor :: rgb
  sourceColor :: rgb
  targetColor :: rgb
  sourceBaseColor :: rgb
  targetBaseColor :: rgb
  attractorPosition :: vec3
  burstPosition :: vec3
  sphereTargetPosition :: vec3
  mouseBurstPosition :: vec3

text \<open>One element of the array \<^verbatim>\<open>getImageParticleData\<close> hands to its callback.\<close>

record sample =
  position :: vec3
  color :: rgb

datatype morphDirection = toTarget | toSource

datatype restRole = source | target

datatype mouseInteraction = none | bursting | attracting

text \<open>\<^verbatim>\<open>morphStateRef.current\<close>; a \<^verbatim>\<open>null\<close> direction is \<open>None\<close>.\<close>

record morphRef =
  isMorphing :: bool
  startTime :: real
  direction :: "morphDirection option"
  duration :: real
  phaseOneDuration :: real
  phaseTwoDuration :: real

record forceParams =
  returnStrength :: real
  damping :: real
  pushRadius :: real
  pushStrength :: real
  particleSize :: real

text \<open>
  The refs of the component. \<open>instancedMesh\<close> tells whether \<^verbatim>\<open>instancedMeshRef.current\<close> is
  set; \<open>animatedForce\<close> and \<open>animatedVibrancy\<close> are the simulation part of
  \<^verbatim>\<open>animatedPropsRef.current\<close>; \<open>completed\<close> logs the argument of every call of
  \<^verbatim>\<open>onMorphComplete\<close>, oldest first (the callback only sets React state of the host). Camera, lights and the instance buffers only feed the renderer and are
  left out.
\<close>

record state =
  particles :: "particle list"
  targetParticleData :: "sample list option"
  instancedMesh :: bool
  morphState :: morphRef
  mouseInteractionState :: mouseInteraction
  mouseInteractionStartTime :: real
  animatedForce :: forceParams
  animatedVibrancy :: real
  completed :: "morphDirection option list"

section \<open>Seeding and re-sampling (ParticleStore)\<close>

text \<open>
  \<^verbatim>\<open>applyVibrancy\<close> goes through \<^verbatim>\<open>Color.getHSL\<close> and \<^verbatim>\<open>Color.setHSL\<close> of three.js, which are
  not part of the repository: the colour transform is the parameter \<open>av\<close> of every
  function that calls it (\<open>av c v\<close> is \<^verbatim>\<open>applyVibrancy(c, v)\<close>).
\<close>

definition seedParticle :: "(rgb \<Rightarrow> real \<Rightarrow> rgb) \<Rightarrow> real \<Rightarrow> nat \<Rightarrow> sample \<Rightarrow> particle" where
  "seedParticle av vibrancy i d =
     (let vibrantColor = av (color d) vibrancy
      in \<lparr>pid = i,
          currentPosition = position d,
          sourcePosition = position d,
          targetPosition = position d,
          velocity = mkv 0 0 0,
          currentColor = vibrantColor,
          sourceColor = vibrantColor,
          targetColor = vibrantColor,
          sourceBaseColor = color d,
          targetBaseColor = color d,
          attractorPosition = position d,
          burstPosition = mkv 0 0 0,
          sphereTargetPosition = mkv 0 0 0,
          mouseBurstPosition = mkv 0 0 0\<rparr>)"

definition setSourceRole :: "(rgb \<Rightarrow> real \<Rightarrow> rgb) \<Rightarrow> real \<Rightarrow> sample \<Rightarrow> particle \<Rightarrow> particle" where
  "setSourceRole av vibrancy d p =
     p\<lparr>sourcePosition := position d,
       sourceBaseColor := color d,
       sourceColor := av (color d) vibrancy\<rparr>"

definition setTargetRole :: "(rgb \<Rightarrow> real \<Rightarrow> rgb) \<Rightarrow> real \<Rightarrow> sample \<Rightarrow> particle \<Rightarrow> particle" where
  "setTargetRole av vibrancy d p =
     p\<lparr>targetPosition := position d,
       targetBaseColor := color d,
       targetColor := av (color d) vibrancy\<rparr>"

text \<open>
  The two loops that the source update, the target update and the morph trigger each
  spell out: indices below \<^verbatim>\<open>numParticles = Math.min(existing.length, data.length)\<close> take
  \<^verbatim>\<open>data[i]\<close>, the remaining particles take \<^verbatim>\<open>data[i % numParticles]\<close>. \<open>upd\<close> is the
  body of the loop (which role it writes).
\<close>

definition remap :: "(sample \<Rightarrow> particle \<Rightarrow> particle) \<Rightarrow> sample list \<Rightarrow> particle list \<Rightarrow> particle list" where
  "remap upd data existingParticles =
     (let numParticles = min (length existingParticles) (length data);
          ps1 = fold (\<lambda>i ps. ps[i := upd (data ! i) (ps ! i)]) [0..<numParticles] existingParticles
      in if length ps1 > numParticles
         then fold (\<lambda>i ps. ps[i := upd (data ! (i mod numParticles)) (ps ! i)])
                [numParticles..<length ps1] ps1
         else ps1)"

definition restAtSource :: "particle \<Rightarrow> particle" where
  "restAtSource p = p\<lparr>attractorPosition := sourcePosition p, currentColor := sourceColor p\<rparr>"

definition restAtTarget :: "particle \<Rightarrow> particle" where
  "restAtTarget p = p\<lparr>attractorPosition := targetPosition p, currentColor := targetColor p\<rparr>"

text \<open>
  The callback of the source image load in \<^verbatim>\<open>Framer.tsx\<close>. \<open>vibrancy\<close> and \<open>role\<close> are
  the props \<^verbatim>\<open>appearance.vibrancy\<close> and \<^verbatim>\<open>morphState\<close> captured by the effect.
\<close>

definition sourceLoaded ::
  "(rgb \<Rightarrow> real \<Rightarrow> rgb) \<Rightarrow> real \<Rightarrow> restRole \<Rightarrow> sample list \<Rightarrow> state \<Rightarrow> state" where
  "sourceLoaded av vibrancy role sourceData s =
     (if length sourceData = 0 then s
      else if \<not> instancedMesh s
      then s\<lparr>particles := map (\<lambda>(i, d). seedParticle av vibrancy i d)
                             (zip [0..<length sourceData] sourceData),
             instancedMesh := True\<rparr>
      else
        (let ps = remap (setSourceRole av vibrancy) sourceData (particles s)
         in if role = source \<and> \<not> isMorphing (morphState s)
            then s\<lparr>particles := map restAtSource ps\<rparr>
            else s\<lparr>particles := ps\<rparr>))"

text \<open>The callback of the target image load in \<^verbatim>\<open>Framer.tsx\<close>.\<close>

definition targetLoaded ::
  "(rgb \<Rightarrow> real \<Rightarrow> rgb) \<Rightarrow> real \<Rightarrow> restRole \<Rightarrow> sample list \<Rightarrow> state \<Rightarrow> state" where
  "targetLoaded av vibrancy role targetData s0 =
     (let s = s0\<lparr>targetParticleData := Some targetData\<rparr>
      in if length targetData = 0 \<or> length (particles s) = 0 then s
         else
           (let ps = remap (setTargetRole av vibrancy) targetData (particles s)
            in if role = target \<and> \<not> isMorphing (morphState s)
               then s\<lparr>particles := map restAtTarget ps\<rparr>
               else s\<lparr>particles := ps\<rparr>))"

section \<open>Morph trigger\<close>

text \<open>
  The effect on \<^verbatim>\<open>morphDirection\<close> in \<^verbatim>\<open>Framer.tsx\<close>. \<open>rnd i\<close> holds the three values
  \<^verbatim>\<open>Math.random()\<close> returns for particle \<open>i\<close>, \<open>now\<close> is \<^verbatim>\<open>performance.now()\<close>.
\<close>

definition setBurst :: "morphDirection \<Rightarrow> vec3 \<Rightarrow> particle \<Rightarrow> particle" where
  "setBurst morphDirection r p =
     (let burstRadius = 300;
          currentPos = (if morphDirection = toTarget then sourcePosition p else targetPosition p)
      in p\<lparr>burstPosition :=
             vadd currentPos
               (mkv ((vx r - 0.5) * burstRadius) ((vy r - 0.5) * burstRadius)
                    ((vz r - 0.5) * burstRadius))\<rparr>)"

definition morphTrigger ::
  "(rgb \<Rightarrow> real \<Rightarrow> rgb) \<Rightarrow> real \<Rightarrow> real \<Rightarrow> (nat \<Rightarrow> vec3) \<Rightarrow> morphDirection option \<Rightarrow> state \<Rightarrow> state" where
  "morphTrigger av vibrancy now rnd morphDirection s =
     (case morphDirection of
        None \<Rightarrow> s
      | Some d \<Rightarrow>
          (case targetParticleData s of
             None \<Rightarrow> s
           | Some targetParticles \<Rightarrow>
               if length (particles s) = 0 \<or> length targetParticles = 0 then s
               else
                 (let ps = remap (setTargetRole av vibrancy) targetParticles (particles s);
                      ps' = map (\<lambda>i. setBurst d (rnd i) (ps ! i)) [0..<length ps]
                  in s\<lparr>particles := ps',
                       morphState := (morphState s)
                         \<lparr>isMorphing := True, startTime := now, direction := Some d\<rparr>\<rparr>)))"

section \<open>Pointer press and release\<close>

text \<open>
  \<open>rb i\<close> are the three random numbers of the burst offset of particle \<open>i\<close>, \<open>rs i\<close> the
  three of its sphere target, in the order the source draws them (radius, theta, phi).
\<close>

definition pressParticle :: "vec3 \<Rightarrow> vec3 \<Rightarrow> particle \<Rightarrow> particle" where
  "pressParticle b r p =
     (let burstRadius = 150;
          sphereRadius = 120;
          rad = sphereRadius * root 3 (vx r);
          theta = vy r * 2 * pi;
          phi = arccos (2 * vz r - 1)
      in p\<lparr>mouseBurstPosition :=
             vadd (currentPosition p)
               (mkv ((vx b - 0.5) * burstRadius) ((vy b - 0.5) * burstRadius)
                    ((vz b - 0.5) * burstRadius)),
           sphereTargetPosition := setFromSphericalCoords rad phi theta\<rparr>)"

definition handlePointerDown :: "real \<Rightarrow> (nat \<Rightarrow> vec3) \<Rightarrow> (nat \<Rightarrow> vec3) \<Rightarrow> state \<Rightarrow> state" where
  "handlePointerDown now rb rs s =
     s\<lparr>mouseInteractionState := bursting,
       mouseInteractionStartTime := now,
       particles := map (\<lambda>i. pressParticle (rb i) (rs i) (particles s ! i))
                      [0..<length (particles s)]\<rparr>"

definition handlePointerUp :: "state \<Rightarrow> state" where
  "handlePointerUp s = s\<lparr>mouseInteractionState := none\<rparr>"

section \<open>The frame tick\<close>

text \<open>
  What one call of \<^verbatim>\<open>animate\<close> reads from outside the refs: the clock, the pointer
  projected on the plane \<open>z = 0\<close> (the camera mathematics of three.js is not modelled),
  the current props and the \<^verbatim>\<open>morphState\<close> prop its closure captured.
\<close>

record props =
  enablePushForce :: bool
  enableCollisions :: bool
  force :: forceParams
  vibrancy :: real

record frame =
  now :: real
  pointer :: vec3
  targetProps :: props
  role :: restRole

definition lerpForce :: "forceParams \<Rightarrow> forceParams \<Rightarrow> real \<Rightarrow> forceParams" where
  "lerpForce a t lerpFactor =
     \<lparr>returnStrength = mlerp (returnStrength a) (returnStrength t) lerpFactor,
      damping = mlerp (damping a) (damping t) lerpFactor,
      pushRadius = mlerp (pushRadius a) (pushRadius t) lerpFactor,
      pushStrength = mlerp (pushStrength a) (pushStrength t) lerpFactor,
      particleSize = mlerp (particleSize a) (particleSize t) lerpFactor\<rparr>"

subsection \<open>Vibrancy change\<close>

definition recolor :: "(rgb \<Rightarrow> real \<Rightarrow> rgb) \<Rightarrow> real \<Rightarrow> bool \<Rightarrow> restRole \<Rightarrow> particle \<Rightarrow> particle" where
  "recolor av v morphing r p =
     (let p1 = p\<lparr>sourceColor := av (sourceBaseColor p) v, targetColor := av (targetBaseColor p) v\<rparr>
      in if \<not> morphing
         then (if r = source then p1\<lparr>currentColor := sourceColor p1\<rparr>
               else p1\<lparr>currentColor := targetColor p1\<rparr>)
         else p1)"

subsection \<open>Pointer interaction (burst, then attraction)\<close>

definition pointerOverride :: "mouseInteraction \<Rightarrow> vec3 \<Rightarrow> particle \<Rightarrow> particle" where
  "pointerOverride mouseState pos p =
     (case mouseState of
        none \<Rightarrow> p
      | bursting \<Rightarrow>
          (let oldPosition = currentPosition p;
               newPosition = vlerp oldPosition (mouseBurstPosition p) 0.08
           in p\<lparr>currentPosition := newPosition, velocity := subVectors newPosition oldPosition\<rparr>)
      | attracting \<Rightarrow>
          (let oldPosition = currentPosition p;
               newPosition = vlerp oldPosition (vadd pos (sphereTargetPosition p)) 0.04
           in p\<lparr>currentPosition := newPosition, velocity := subVectors newPosition oldPosition\<rparr>))"

definition pointerTick :: "real \<Rightarrow> vec3 \<Rightarrow> state \<Rightarrow> state" where
  "pointerTick tnow pos s =
     (let mouseState = mouseInteractionState s;
          mouseInteractionBurstDuration = 400;
          interactionElapsedTime = tnow - mouseInteractionStartTime s
      in s\<lparr>particles := map (pointerOverride mouseState pos) (particles s),
           mouseInteractionState :=
             (if mouseState = bursting \<and> interactionElapsedTime > mouseInteractionBurstDuration
              then attracting else mouseState)\<rparr>)"

subsection \<open>Morph (MorphController)\<close>

definition arrivalPosition :: "morphDirection option \<Rightarrow> particle \<Rightarrow> vec3" where
  "arrivalPosition d p = (if d = Some toTarget then targetPosition p else sourcePosition p)"

definition arrivalColor :: "morphDirection option \<Rightarrow> particle \<Rightarrow> rgb" where
  "arrivalColor d p = (if d = Some toTarget then targetColor p else sourceColor p)"

definition snap :: "morphDirection option \<Rightarrow> particle \<Rightarrow> particle" where
  "snap d p = p\<lparr>attractorPosition := arrivalPosition d p, currentColor := arrivalColor d p\<rparr>"

definition morphStep :: "morphRef \<Rightarrow> real \<Rightarrow> nat \<Rightarrow> nat \<Rightarrow> particle \<Rightarrow> particle" where
  "morphStep m elapsedTime n i p =
     (let d = direction m;
          phaseTwoEndTime = phaseOneDuration m + phaseTwoDuration m;
          sphereRadius = 180;
          totalProgress = easeInOutCubic (elapsedTime / duration m);
          startColor = (if d = Some toTarget then sourceColor p else targetColor p);
          endColor = (if d = Some toTarget then targetColor p else sourceColor p);
          p1 = p\<lparr>currentColor := clerp startColor endColor totalProgress\<rparr>;
          currentStartPos = (if d = Some toTarget then sourcePosition p else targetPosition p);
          currentEndPos = (if d = Some toTarget then targetPosition p else sourcePosition p);
          phi = arccos (- 1 + (2 * real i) / real n);
          theta = sqrt (real n * pi) * phi;
          spherePos = setFromSphericalCoords sphereRadius phi theta
      in if elapsedTime < phaseOneDuration m
         then p1\<lparr>attractorPosition :=
                   lerpVectors currentStartPos (burstPosition p)
                     (easeInOutCubic (elapsedTime / phaseOneDuration m))\<rparr>
         else if elapsedTime < phaseTwoEndTime
         then p1\<lparr>attractorPosition :=
                   lerpVectors (burstPosition p) spherePos
                     (easeInOutCubic ((elapsedTime - phaseOneDuration m) / phaseTwoDuration m))\<rparr>
         else
           (let phaseThreeDuration = duration m - phaseTwoEndTime;
                progress = easeInOutCubic ((elapsedTime - phaseTwoEndTime) / phaseThreeDuration);
                intermediatePos = lerpVectors spherePos currentEndPos progress;
                travelVector = subVectors currentEndPos spherePos;
                swirlAxis = normalize (mkv 0.3 (- 0.4) 0.8);
                perpendicular0 = normalize (crossVectors travelVector swirlAxis);
                perpendicular = (if lengthSq perpendicular0 < 0.1 then mkv 0 1 0 else perpendicular0);
                swirlAmplitude = vlength travelVector * 0.3 * sin (progress * pi);
                swirlOffset = multiplyScalar perpendicular swirlAmplitude
            in p1\<lparr>attractorPosition := vadd intermediatePos swirlOffset\<rparr>))"

definition morphTick :: "real \<Rightarrow> state \<Rightarrow> state" where
  "morphTick tnow s =
     (let currentMorphState = morphState s;
          elapsedTime = tnow - startTime currentMorphState;
          d = direction currentMorphState
      in if elapsedTime \<ge> duration currentMorphState
         then s\<lparr>particles := map (snap d) (particles s),
                morphState := currentMorphState\<lparr>isMorphing := False\<rparr>,
                completed := completed s @ [d]\<rparr>
         else s\<lparr>particles :=
                  map (\<lambda>i. morphStep currentMorphState elapsedTime (length (particles s)) i
                             (particles s ! i))
                    [0..<length (particles s)]\<rparr>)"

subsection \<open>Spatial hash grid\<close>

text \<open>
  A cell key is the string \<^verbatim>\<open>`${floor(x/c)}_${floor(y/c)}_${floor(z/c)}`\<close>, modelled by the
  triple of integers it prints. A cell holds references to particle objects: here, their
  indices in the particle array, in insertion order.
\<close>

type_synonym cellKey = "int \<times> int \<times> int"

definition getCellKey :: "real \<Rightarrow> vec3 \<Rightarrow> cellKey" where
  "getCellKey gridCellSize v =
     (\<lfloor>vx v / gridCellSize\<rfloor>, \<lfloor>vy v / gridCellSize\<rfloor>, \<lfloor>vz v / gridCellSize\<rfloor>)"

definition insertCell :: "real \<Rightarrow> particle list \<Rightarrow> nat \<Rightarrow> (cellKey \<rightharpoonup> nat list) \<Rightarrow> (cellKey \<rightharpoonup> nat list)" where
  "insertCell gridCellSize ps i grid =
     (let key = getCellKey gridCellSize (currentPosition (ps ! i))
      in grid(key \<mapsto> (case grid key of None \<Rightarrow> [] | Some cell \<Rightarrow> cell) @ [i]))"

definition buildGrid :: "real \<Rightarrow> particle list \<Rightarrow> (cellKey \<rightharpoonup> nat list)" where
  "buildGrid gridCellSize ps = fold (insertCell gridCellSize ps) [0..<length ps] Map.empty"

text \<open>The three nested loops \<^verbatim>\<open>dx, dy, dz = -1 .. 1\<close>, in their order.\<close>

definition offsets :: "cellKey list" where
  "offsets = concat (map (\<lambda>dx. concat (map (\<lambda>dy. map (\<lambda>dz. (dx, dy, dz)) [- 1, 0, 1]) [- 1, 0, 1])) [- 1, 0, 1])"

definition shiftKey :: "cellKey \<Rightarrow> cellKey \<Rightarrow> cellKey" where
  "shiftKey k d = (fst k + fst d, fst (snd k) + fst (snd d), snd (snd k) + snd (snd d))"

subsection \<open>Pointer push\<close>

definition pushParticle :: "real \<Rightarrow> real \<Rightarrow> vec3 \<Rightarrow> particle \<Rightarrow> particle" where
  "pushParticle pRadius pStrength pos p =
     (let pushRadiusSq = pRadius * pRadius;
          distanceSq = distanceToSquared (currentPosition p) pos
      in if distanceSq > 1 / 1000000 \<and> distanceSq < pushRadiusSq
         then
           (let distance = sqrt distanceSq;
                strength = (((pRadius - distance) / pRadius) * pStrength) / distance;
                forceVector = multiplyScalar (subVectors (currentPosition p) pos) strength
            in p\<lparr>velocity := vadd (velocity p) forceVector\<rparr>)
         else p)"

definition applyPush :: "real \<Rightarrow> real \<Rightarrow> vec3 \<Rightarrow> particle list \<Rightarrow> particle list" where
  "applyPush pRadius pStrength pos ps =
     (let gridCellSize = pRadius;
          grid = buildGrid gridCellSize ps;
          mouseKey = getCellKey gridCellSize pos
      in fold (\<lambda>d qs.
                 case grid (shiftKey mouseKey d) of
                   None \<Rightarrow> qs
                 | Some cell \<Rightarrow>
                     fold (\<lambda>i rs. rs[i := pushParticle pRadius pStrength pos (rs ! i)]) cell qs)
           offsets ps)"

subsection \<open>Force integration\<close>

definition integrate :: "real \<Rightarrow> real \<Rightarrow> particle \<Rightarrow> particle" where
  "integrate rStrength damp p =
     (let returnForce =
            multiplyScalar (subVectors (attractorPosition p) (currentPosition p)) rStrength;
          v1 = vadd (velocity p) returnForce;
          v2 = multiplyScalar v1 damp
      in p\<lparr>velocity := v2, currentPosition := vadd (currentPosition p) v2\<rparr>)"

subsection \<open>Collision resolution\<close>

text \<open>The body of the innermost loop of \<^verbatim>\<open>handleCollisions\<close>, after the test on the ids.\<close>

definition resolvePair :: "real \<Rightarrow> particle \<Rightarrow> particle \<Rightarrow> particle \<times> particle" where
  "resolvePair collisionDist p1 p2 =
     (let collisionDistSq = collisionDist * collisionDist;
          distanceSq = distanceToSquared (currentPosition p1) (currentPosition p2)
      in if distanceSq > 0 \<and> distanceSq < collisionDistSq
         then
           (let distance = sqrt distanceSq;
                overlap = (collisionDist - distance) * 0.5;
                collisionNormal =
                  multiplyScalar (subVectors (currentPosition p1) (currentPosition p2)) (1 / distance);
                correction = multiplyScalar collisionNormal overlap;
                q1 = p1\<lparr>currentPosition := vadd (currentPosition p1) correction\<rparr>;
                q2 = p2\<lparr>currentPosition := subVectors (currentPosition p2) correction\<rparr>;
                relativeVelocity = subVectors (velocity p1) (velocity p2);
                velocityAlongNormal = vdot relativeVelocity collisionNormal
            in if velocityAlongNormal > 0 then (q1, q2)
               else
                 (let restitution = 0.5;
                      impulseScalar = - (1 + restitution) * velocityAlongNormal;
                      impulse = multiplyScalar collisionNormal (impulseScalar * 0.5)
                  in (q1\<lparr>velocity := vadd (velocity p1) impulse\<rparr>,
                      q2\<lparr>velocity := subVectors (velocity p2) impulse\<rparr>)))
         else (p1, p2))"

text \<open>One visit of the pair of array slots \<open>i\<close>, \<open>j\<close>: \<^verbatim>\<open>if (p1.id >= p2.id) continue\<close>.\<close>

definition visitPair :: "real \<Rightarrow> nat \<Rightarrow> nat \<Rightarrow> particle list \<Rightarrow> particle list" where
  "visitPair collisionDist i j ps =
     (if pid (ps ! i) \<ge> pid (ps ! j) then ps
      else (let q = resolvePair collisionDist (ps ! i) (ps ! j)
            in (ps[i := fst q])[j := snd q]))"

definition handleCollisions :: "particle list \<Rightarrow> real \<Rightarrow> particle list" where
  "handleCollisions ps pSize =
     (if length ps < 2 \<or> pSize \<le> 0 then ps
      else
        (let collisionDist = pSize * 2;
             gridCellSize = collisionDist;
             grid = buildGrid gridCellSize ps
         in fold (\<lambda>i qs.
                    (let p1Key = getCellKey gridCellSize (currentPosition (qs ! i))
                     in fold (\<lambda>d rs.
                                case grid (shiftKey p1Key d) of
                                  None \<Rightarrow> rs
                                | Some cell \<Rightarrow> fold (\<lambda>j ts. visitPair collisionDist i j ts) cell rs)
                          offsets qs))
              [0..<length ps] ps))"

subsection \<open>animate\<close>

text \<open>
  The part of the tick that runs when no pointer interaction is active: morph, push,
  integration, collisions.
\<close>

definition physicsTick :: "frame \<Rightarrow> state \<Rightarrow> state" where
  "physicsTick f s =
     (let s3 = (if isMorphing (morphState s) then morphTick (now f) s else s);
          fp = animatedForce s3;
          ps4 = (if enablePushForce (targetProps f) \<and> mouseInteractionState s3 = none
                    \<and> pushRadius fp > 0
                 then applyPush (pushRadius fp) (pushStrength fp) (pointer f) (particles s3)
                 else particles s3);
          ps5 = map (integrate (returnStrength fp) (damping fp)) ps4;
          ps6 = (if enableCollisions (targetProps f) then handleCollisions ps5 (particleSize fp)
                 else ps5)
      in s3\<lparr>particles := ps6\<rparr>)"

text \<open>
  The head of the tick: the animated force parameters and the vibrancy move a twentieth
  of the way to the props, and a change of the vibrancy by more than 0.001 re-derives
  the role colours (and the current colour when no morph runs).
\<close>

definition propsTick :: "(rgb \<Rightarrow> real \<Rightarrow> rgb) \<Rightarrow> frame \<Rightarrow> state \<Rightarrow> state" where
  "propsTick av f s =
     (let lerpFactor = 0.05;
          oldVibrancy = animatedVibrancy s;
          newVibrancy = mlerp oldVibrancy (vibrancy (targetProps f)) lerpFactor;
          vibrancyChanged = (\<bar>newVibrancy - oldVibrancy\<bar> > 0.001);
          s1 = s\<lparr>animatedVibrancy := newVibrancy,
                 animatedForce := lerpForce (animatedForce s) (force (targetProps f)) lerpFactor\<rparr>
      in if vibrancyChanged
         then s1\<lparr>particles :=
                  map (recolor av newVibrancy (isMorphing (morphState s1)) (role f)) (particles s1)\<rparr>
         else s1)"

definition animate :: "(rgb \<Rightarrow> real \<Rightarrow> rgb) \<Rightarrow> frame \<Rightarrow> state \<Rightarrow> state" where
  "animate av f s =
     (if \<not> instancedMesh s \<or> length (particles s) = 0 then s
      else
        (let s2 = propsTick av f s
         in if mouseInteractionState s2 \<noteq> none then pointerTick (now f) (pointer f) s2
            else physicsTick f s2))"

section \<open>Events of the component\<close>

datatype event =
    SourceLoaded real restRole "sample list"
  | TargetLoaded real restRole "sample list"
  | MorphTrigger real real "nat \<Rightarrow> vec3" "morphDirection option"
  | PointerDown real "nat \<Rightarrow> vec3" "nat \<Rightarrow> vec3"
  | PointerUp
  | Frame frame

fun step :: "(rgb \<Rightarrow> real \<Rightarrow> rgb) \<Rightarrow> event \<Rightarrow> state \<Rightarrow> state" where
  "step av (SourceLoaded v r d) s = sourceLoaded av v r d s"
| "step av (TargetLoaded v r d) s = targetLoaded av v r d s"
| "step av (MorphTrigger v t rnd d) s = morphTrigger av v t rnd d s"
| "step av (PointerDown t rb rs) s = handlePointerDown t rb rs s"
| "step av PointerUp s = handlePointerUp s"
| "step av (Frame f) s = animate av f s"

definition run :: "(rgb \<Rightarrow> real \<Rightarrow> rgb) \<Rightarrow> event list \<Rightarrow> state \<Rightarrow> state" where
  "run av es s = fold (step av) es s"

fun isTrigger :: "event \<Rightarrow> bool" where
  "isTrigger (MorphTrigger v t rnd d) = True"
| "isTrigger e = False"

section \<open>The component of ImageParticleEffect.tsx\<close>

text \<open>
  \<^verbatim>\<open>src/components/ImageParticleEffect.tsx\<close> is the earlier variant of the same component:
  its pointer branch and its morph branch are those of \<^verbatim>\<open>Framer.tsx\<close> word for word
  (\<open>pointerTick\<close>, \<open>morphTick\<close>); it has fixed force constants, no vibrancy, no
  collisions, and it applies the pointer push inside the integration loop, without a
  grid and without a test for small distances. Its particles have no \<^verbatim>\<open>id\<close> and no base
  colours; the fields \<open>pid\<close>, \<open>sourceBaseColor\<close> and \<open>targetBaseColor\<close> are never read or
  written by the functions of this section.
\<close>

definition pushSimple :: "vec3 \<Rightarrow> particle \<Rightarrow> particle" where
  "pushSimple pos p =
     (let pRadius = 60;
          pStrength = 0.8;
          distanceToMouse = distanceTo (currentPosition p) pos
      in if distanceToMouse < pRadius
         then
           (let pushForce =
                  multiplyScalar
                    (multiplyScalar (normalize (subVectors (currentPosition p) pos))
                       ((pRadius - distanceToMouse) / pRadius))
                    pStrength
            in p\<lparr>velocity := vadd (velocity p) pushForce\<rparr>)
         else p)"

definition animateSimple :: "real \<Rightarrow> vec3 \<Rightarrow> state \<Rightarrow> state" where
  "animateSimple tnow pos s =
     (if \<not> instancedMesh s \<or> length (particles s) = 0 then s
      else if mouseInteractionState s \<noteq> none then pointerTick tnow pos s
      else
        (let s3 = (if isMorphing (morphState s) then morphTick tnow s else s);
             rStrength = 0.02;
             damp = 0.92
         in s3\<lparr>particles :=
                 map (\<lambda>p. integrate rStrength damp
                             (if mouseInteractionState s3 = none then pushSimple pos p else p))
                   (particles s3)\<rparr>))"

text \<open>
  The morph trigger of the variant has no test for empty arrays: with particles present
  and an empty target array, \<^verbatim>\<open>targetParticles[i % 0]\<close> is \<^verbatim>\<open>undefined\<close> and reading its
  \<^verbatim>\<open>position\<close> throws.
\<close>

datatype error = TypeError

definition setTargetSimple :: "sample \<Rightarrow> particle \<Rightarrow> particle" where
  "setTargetSimple d p = p\<lparr>targetPosition := position d, targetColor := color d\<rparr>"

definition setBurstSimple :: "vec3 \<Rightarrow> particle \<Rightarrow> particle" where
  "setBurstSimple r p =
     (let burstRadius = 300
      in p\<lparr>burstPosition :=
             vadd (sourcePosition p)
               (mkv ((vx r - 0.5) * burstRadius) ((vy r - 0.5) * burstRadius)
                    ((vz r - 0.5) * burstRadius))\<rparr>)"

definition morphTriggerSimple ::
  "real \<Rightarrow> (nat \<Rightarrow> vec3) \<Rightarrow> morphDirection option \<Rightarrow> state \<Rightarrow> error + state" where
  "morphTriggerSimple tnow rnd morphDirection s =
     (case morphDirection of
        None \<Rightarrow> Inr s
      | Some d \<Rightarrow>
          (case targetParticleData s of
             None \<Rightarrow> Inr s
           | Some targetParticles \<Rightarrow>
               if length targetParticles = 0 \<and> length (particles s) > 0 then Inl TypeError
               else
                 (let ps = remap setTargetSimple targetParticles (particles s);
                      ps' = map (\<lambda>i. setBurstSimple (rnd i) (ps ! i)) [0..<length ps]
                  in Inr (s\<lparr>particles := ps',
                            morphState := (morphState s)
                              \<lparr>isMorphing := True, startTime := tnow, direction := Some d\<rparr>\<rparr>))))"

section \<open>The hosts of the component\<close>

text \<open>
  \<^verbatim>\<open>App.tsx\<close> drives the component of \<^verbatim>\<open>ImageParticleEffect.tsx\<close> through the prop
  \<^verbatim>\<open>morphDirection\<close>; its button handler is the only place in the repository that
  looks at a morphing flag before it requests a morph.
\<close>

record app =
  sourceImageUrl :: string
  currentImageUrl :: string
  targetImageUrl :: "string option"
  appMorphDirection :: "morphDirection option"
  appIsMorphing :: bool

definition falsy :: "string option \<Rightarrow> bool" where
  "falsy u = (u = None \<or> u = Some [])"

definition handleToggleMorph :: "app \<Rightarrow> app" where
  "handleToggleMorph a =
     (if falsy (targetImageUrl a) \<or> appIsMorphing a then a
      else a\<lparr>appIsMorphing := True,
             appMorphDirection :=
               Some (if currentImageUrl a = sourceImageUrl a then toTarget else toSource)\<rparr>)"

text \<open>
  \<^verbatim>\<open>FramerImageParticleEffect\<close> derives \<^verbatim>\<open>morphDirection\<close> from changes of its
  \<^verbatim>\<open>morphState\<close> prop.
\<close>

record wrapper =
  prevMorphState :: restRole
  wrapperMorphDirection :: "morphDirection option"

definition wrapperEffect :: "restRole \<Rightarrow> wrapper \<Rightarrow> wrapper" where
  "wrapperEffect morphStateProp w =
     (if morphStateProp \<noteq> prevMorphState w
      then w\<lparr>wrapperMorphDirection := Some (if morphStateProp = target then toTarget else toSource),
             prevMorphState := morphStateProp\<rparr>
      else w)"

section \<open>Notions used in the statements\<close>

subsection \<open>Completion of a morph\<close>

text \<open>The condition under which a tick of \<^verbatim>\<open>animate\<close> reaches the completion branch.\<close>

definition completes :: "real \<Rightarrow> state \<Rightarrow> bool" where
  "completes tnow s =
     (instancedMesh s \<and> particles s \<noteq> [] \<and> mouseInteractionState s = none
      \<and> isMorphing (morphState s)
      \<and> duration (morphState s) \<le> tnow - startTime (morphState s))"

text \<open>
  Two particles are \<open>sameHome\<close> when they differ at most in their live position and
  velocity.
\<close>

definition sameHome :: "particle \<Rightarrow> particle \<Rightarrow> bool" where
  "sameHome p q =
     (pid q = pid p \<and> sourcePosition q = sourcePosition p \<and> targetPosition q = targetPosition p
      \<and> currentColor q = currentColor p \<and> sourceColor q = sourceColor p
      \<and> targetColor q = targetColor p \<and> sourceBaseColor q = sourceBaseColor p
      \<and> targetBaseColor q = targetBaseColor p \<and> attractorPosition q = attractorPosition p
      \<and> burstPosition q = burstPosition p \<and> sphereTargetPosition q = sphereTargetPosition p
      \<and> mouseBurstPosition q = mouseBurstPosition p)"

text \<open>A list of events with no morph trigger in it.\<close>

definition noTrigger :: "event list \<Rightarrow> bool" where
  "noTrigger es = (\<forall>e\<in>set es. \<not> isTrigger e)"

subsection \<open>Grid cells\<close>

text \<open>
  The cell key of the particle in slot \<open>i\<close>, and the content of a cell (empty when the
  map has no entry).
\<close>

definition keyOf :: "real \<Rightarrow> particle list \<Rightarrow> nat \<Rightarrow> cellKey" where
  "keyOf c ps i = getCellKey c (currentPosition (ps ! i))"

definition cellOf :: "(cellKey \<rightharpoonup> nat list) \<Rightarrow> cellKey \<Rightarrow> nat list" where
  "cellOf g k = (case g k of None \<Rightarrow> [] | Some cell \<Rightarrow> cell)"

text \<open>
  The slots that the three loops over \<^verbatim>\<open>dx, dy, dz\<close> reach from the cell \<open>k\<close>, in the order in
  which they are reached, in the grid built from \<open>ps\<close> with cell size \<open>c\<close>.
\<close>

definition visited :: "real \<Rightarrow> particle list \<Rightarrow> cellKey \<Rightarrow> nat list" where
  "visited c ps k = concat (map (\<lambda>d. cellOf (buildGrid c ps) (shiftKey k d)) offsets)"

subsection \<open>Collision correction\<close>

text \<open>
  The positions of the first and of the second particle of a pair after the positional
  correction of \<^verbatim>\<open>handleCollisions\<close>, for a collision distance \<open>c\<close>.
\<close>

definition corrected1 :: "real \<Rightarrow> vec3 \<Rightarrow> vec3 \<Rightarrow> vec3" where
  "corrected1 c a b =
     vadd a (multiplyScalar (multiplyScalar (subVectors a b) (1 / distanceTo a b))
                ((c - distanceTo a b) * 0.5))"

definition corrected2 :: "real \<Rightarrow> vec3 \<Rightarrow> vec3 \<Rightarrow> vec3" where
  "corrected2 c a b =
     subVectors b (multiplyScalar (multiplyScalar (subVectors a b) (1 / distanceTo a b))
                ((c - distanceTo a b) * 0.5))"

subsection \<open>The update rule of the force integration\<close>

text \<open>
  The pointer-push contribution to the velocity of one particle, and the update
  \<open>velocity' = damping * (velocity + (attractor - position) * returnStrength + push)\<close>,
  \<open>position' = position + velocity'\<close>, written after the specification. \<open>pushForce\<close> is the
  contribution in \<^verbatim>\<open>Framer.tsx\<close>, \<open>pushForceSimple\<close> the one in \<^verbatim>\<open>ImageParticleEffect.tsx\<close>.
\<close>

definition pushForce :: "bool \<Rightarrow> real \<Rightarrow> real \<Rightarrow> vec3 \<Rightarrow> particle \<Rightarrow> vec3" where
  "pushForce enabled pRadius pStrength pos p =
     (let distanceSq = distanceToSquared (currentPosition p) pos
      in if enabled \<and> pRadius > 0 \<and> distanceSq > 1 / 1000000 \<and> distanceSq < pRadius * pRadius
         then multiplyScalar (subVectors (currentPosition p) pos)
                ((((pRadius - sqrt distanceSq) / pRadius) * pStrength) / sqrt distanceSq)
         else mkv 0 0 0)"

definition pushForceSimple :: "vec3 \<Rightarrow> particle \<Rightarrow> vec3" where
  "pushForceSimple pos p =
     (let distanceToMouse = distanceTo (currentPosition p) pos
      in if distanceToMouse < 60
         then multiplyScalar
                (multiplyScalar (normalize (subVectors (currentPosition p) pos))
                   ((60 - distanceToMouse) / 60))
                0.8
         else mkv 0 0 0)"

definition dampedUpdate :: "real \<Rightarrow> real \<Rightarrow> vec3 \<Rightarrow> particle \<Rightarrow> particle" where
  "dampedUpdate rStrength damp push p =
     (let v' = multiplyScalar
                 (vadd (vadd (velocity p)
                          (multiplyScalar (subVectors (attractorPosition p) (currentPosition p)) rStrength))
                    push)
                 damp
      in p\<lparr>velocity := v', currentPosition := vadd (currentPosition p) v'\<rparr>)"

subsection \<open>Relaxation towards a fixed attractor\<close>

text \<open>
  \<open>relax\<close> runs the body of the force integration loop \<open>n\<close> times on one particle: no
  push, no pointer interaction, no morph, no collisions. \<open>convergesToAttractor\<close> and
  \<open>velocityDecays\<close> state the two halves of the damping property.
\<close>

definition relax :: "real \<Rightarrow> real \<Rightarrow> nat \<Rightarrow> particle \<Rightarrow> particle" where
  "relax rStrength damp n p = (integrate rStrength damp ^^ n) p"

definition convergesToAttractor :: "real \<Rightarrow> real \<Rightarrow> particle \<Rightarrow> bool" where
  "convergesToAttractor rStrength damp p =
     (\<forall>\<epsilon>>0. \<exists>N. \<forall>n\<ge>N.
        distanceTo (currentPosition (relax rStrength damp n p)) (attractorPosition p) < \<epsilon>)"

definition velocityDecays :: "real \<Rightarrow> real \<Rightarrow> particle \<Rightarrow> bool" where
  "velocityDecays rStrength damp p =
     (\<exists>C \<rho>. 0 \<le> C \<and> 0 < \<rho> \<and> \<rho> < 1
        \<and> (\<forall>n. vlength (velocity (relax rStrength damp n p)) \<le> C * \<rho> ^ n))"

section \<open>Example inputs\<close>

text \<open>
  Concrete values for the closed instances below: a colour transform in the place of
  \<^verbatim>\<open>applyVibrancy\<close>, some samples, the initial values of the refs (force parameters and
  vibrancy of \<^verbatim>\<open>defaultProps\<close>), and the state after a first source image of three samples
  has been loaded.
\<close>

definition tint :: "rgb \<Rightarrow> real \<Rightarrow> rgb" where
  "tint c v = mkc (min 1 (cr c * v)) (cg c) (cb c)"

definition sampleA :: sample where
  "sampleA = \<lparr>position = mkv 1 2 0, color = mkc 1 0 0\<rparr>"

definition sampleB :: sample where
  "sampleB = \<lparr>position = mkv (- 3) 4 0, color = mkc 0 1 0\<rparr>"

definition sampleC :: sample where
  "sampleC = \<lparr>position = mkv 5 (- 6) 0, color = mkc 0 0 1\<rparr>"

definition sampleD :: sample where
  "sampleD = \<lparr>position = mkv 7 7 0, color = mkc (1 / 2) (1 / 2) 0\<rparr>"

definition sampleE :: sample where
  "sampleE = \<lparr>position = mkv (- 8) 9 0, color = mkc (1 / 4) 0 (1 / 4)\<rparr>"

definition idleMorph :: morphRef where
  "idleMorph = \<lparr>isMorphing = False, startTime = 0, direction = None, duration = 4000,
                phaseOneDuration = 1300, phaseTwoDuration = 1300\<rparr>"

definition defaultForce :: forceParams where
  "defaultForce = \<lparr>returnStrength = 0.02, damping = 0.92, pushRadius = 60, pushStrength = 0.8,
                   particleSize = 1.25\<rparr>"

definition initialState :: state where
  "initialState = \<lparr>particles = [], targetParticleData = None, instancedMesh = False,
                   morphState = idleMorph, mouseInteractionState = none,
                   mouseInteractionStartTime = 0, animatedForce = defaultForce,
                   animatedVibrancy = 1.2, completed = []\<rparr>"

definition seeded3 :: state where
  "seeded3 = sourceLoaded tint 2 source [sampleA, sampleB, sampleC] initialState"

text \<open>Particles at rest at a given place, and pairs of them at distance 1 and 3.\<close>

definition restingAt :: "nat \<Rightarrow> vec3 \<Rightarrow> particle" where
  "restingAt i a = seedParticle (\<lambda>c v. c) 1 i \<lparr>position = a, color = mkc 1 1 1\<rparr>"

definition closePair :: "particle list" where
  "closePair = [restingAt 0 (mkv 0 0 0), restingAt 1 (mkv 1 0 0)]"

definition farPair :: "particle list" where
  "farPair = [restingAt 0 (mkv 0 0 0), restingAt 1 (mkv 3 0 0)]"

text \<open>The pair at distance 1 after a collision pass with \<open>particleSize = 1.25\<close>.\<close>

definition closePairApart :: "particle list" where
  "closePairApart = [(restingAt 0 (mkv 0 0 0))\<lparr>currentPosition := mkv (- 3 / 4) 0 0\<rparr>,
                     (restingAt 1 (mkv 1 0 0))\<lparr>currentPosition := mkv (7 / 4) 0 0\<rparr>]"

text \<open>
  Three particles on a line at 0, 2.4 and 2.6, the array after the visit of the slots 0
  and 1 with \<open>particleSize = 1.25\<close>, and the array after the whole collision pass.
\<close>

definition chain3 :: "particle list" where
  "chain3 = [restingAt 0 (mkv 0 0 0), restingAt 1 (mkv (12 / 5) 0 0), restingAt 2 (mkv (13 / 5) 0 0)]"

definition chain3Visited :: "particle list" where
  "chain3Visited = [(restingAt 0 (mkv 0 0 0))\<lparr>currentPosition := mkv (- 1 / 20) 0 0\<rparr>,
                   (restingAt 1 (mkv (12 / 5) 0 0))\<lparr>currentPosition := mkv (49 / 20) 0 0\<rparr>,
                   restingAt 2 (mkv (13 / 5) 0 0)]"

definition chain3Final :: "particle list" where
  "chain3Final = [(restingAt 0 (mkv 0 0 0))\<lparr>currentPosition := mkv (- 1 / 20) 0 0\<rparr>,
                   (restingAt 1 (mkv (12 / 5) 0 0))\<lparr>currentPosition := mkv (51 / 40) 0 0\<rparr>,
                   (restingAt 2 (mkv (13 / 5) 0 0))\<lparr>currentPosition := mkv (151 / 40) 0 0\<rparr>]"

text \<open>A host state, random numbers, props and frames.\<close>

definition exampleApp :: app where
  "exampleApp = \<lparr>sourceImageUrl = ''a.png'', currentImageUrl = ''a.png'',
                 targetImageUrl = Some ''b.png'', appMorphDirection = None, appIsMorphing = False\<rparr>"

definition rnd0 :: "nat \<Rightarrow> vec3" where
  "rnd0 i = mkv (1 / 2) (1 / 4) (3 / 4)"

definition defaultProps :: props where
  "defaultProps = \<lparr>enablePushForce = True, enableCollisions = True, force = defaultForce,
                   vibrancy = 1.2\<rparr>"

definition frameAt :: "real \<Rightarrow> frame" where
  "frameAt t = \<lparr>now = t, pointer = mkv 0 0 0, targetProps = defaultProps, role = source\<rparr>"

text \<open>
  A target image of two samples is loaded, a morph to the target is triggered at time 0,
  and the pointer is pressed at time 3900.
\<close>

definition loaded3 :: state where
  "loaded3 = targetLoaded tint 2 source [sampleD, sampleE] seeded3"

definition morphing3 :: state where
  "morphing3 = morphTrigger tint 2 0 rnd0 (Some toTarget) loaded3"

definition pressed3 :: state where
  "pressed3 = handlePointerDown 3900 rnd0 rnd0 morphing3"

text \<open>
  Events before and after the tick at time 4000, and the states reached: \<open>ripe3\<close> just
  before that tick without a pointer interaction, \<open>attracting3\<close> with the pointer held
  since 3900 and a tick at 4350.
\<close>

definition attracting3 :: state where
  "attracting3 = animate tint (frameAt 4350) pressed3"

definition beforeCompletion :: "event list" where
  "beforeCompletion =
     [Frame (frameAt 16), PointerDown 20 rnd0 rnd0, Frame (frameAt 32), PointerUp,
      Frame (frameAt 3990)]"

definition afterCompletion :: "event list" where
  "afterCompletion = [Frame (frameAt 4016), PointerDown 4020 rnd0 rnd0, Frame (frameAt 4032), PointerUp]"

definition ripe3 :: state where
  "ripe3 = run tint beforeCompletion morphing3"

text \<open>Three particles near a pointer at the origin.\<close>

definition nearPointer :: "particle list" where
  "nearPointer = [restingAt 0 (mkv (1 / 10000) 0 0), restingAt 1 (mkv 30 0 0),
                  restingAt 2 (mkv 1000 0 0)]"

text \<open>A particle at rest one unit away from its attractor.\<close>

definition displaced :: particle where
  "displaced = (restingAt 0 (mkv 1 0 0))\<lparr>attractorPosition := mkv 0 0 0\<rparr>"

text \<open>
  The state after a first source image of two white samples one unit apart, and a frame
  with the props of \<^verbatim>\<open>defaultProps\<close> (push and collisions switched on) whose pointer is far
  from every particle.
\<close>

definition crowded :: state where
  "crowded = sourceLoaded tint (6 / 5) source
               [\<lparr>position = mkv 0 0 0, color = mkc 1 1 1\<rparr>, \<lparr>position = mkv 1 0 0, color = mkc 1 1 1\<rparr>]
               initialState"

definition farFrame :: frame where
  "farFrame = \<lparr>now = 16, pointer = mkv 1000 1000 0, targetProps = defaultProps, role = source\<rparr>"

text \<open>
  A particle moving at velocity \<open>(1, 0, 0)\<close>, 30 units from the pointer of \<open>frameAt\<close> and 10
  units from its attractor, a second particle at rest out of the push radius, the state
  that holds the two, and the two after one tick.
\<close>

definition nudged :: particle where
  "nudged = (restingAt 0 (mkv 30 0 0))\<lparr>velocity := mkv 1 0 0, attractorPosition := mkv 20 0 0\<rparr>"

definition bystander :: particle where
  "bystander = restingAt 1 (mkv 100 0 0)"

definition nudgedState :: state where
  "nudgedState = initialState\<lparr>particles := [nudged, bystander], instancedMesh := True\<rparr>"

definition nudgedNext :: "particle list" where
  "nudgedNext = [nudged\<lparr>velocity := mkv (138 / 125) 0 0, currentPosition := mkv (3888 / 125) 0 0\<rparr>,
                 bystander]"

section \<open>Facts about the index loops\<close>

lemma length_fold_upd:
  "length (fold (\<lambda>i ps. ps[i := g i ps]) js xs) = length xs"
  by (induction js arbitrary: xs) simp_all

lemma nth_fold_upd:
  assumes "distinct js" and "j < length xs"
  shows "fold (\<lambda>i ps. ps[i := f i (ps ! i)]) js xs ! j
         = (if j \<in> set js then f j (xs ! j) else xs ! j)"
  using assms
proof (induction js arbitrary: xs)
  case Nil
  then show ?case by simp
next
  case (Cons a js)
  have len: "j < length (xs[a := f a (xs ! a)])"
    using Cons.prems by simp
  have d: "distinct js" and a: "a \<notin> set js"
    using Cons.prems by simp_all
  show ?case
  proof (cases "j = a")
    case True
    then show ?thesis
      using Cons.IH [OF d len] a Cons.prems by simp
  next
    case False
    then show ?thesis
      using Cons.IH [OF d len] by simp
  qed
qed

lemma length_remap: "length (remap upd data ps) = length ps"
  by (simp add: remap_def Let_def length_fold_upd)


section \<open>The particle array keeps its length\<close>

lemma fold_length_inv:
  assumes "\<And>x ys. length (F x ys) = length ys"
  shows "length (fold F xs ys) = length ys"
  using assms by (induction xs arbitrary: ys) simp_all

lemma length_visitPair: "length (visitPair c i j ps) = length ps"
  by (simp add: visitPair_def Let_def)

lemma length_applyPush: "length (applyPush r st pos ps) = length ps"
  unfolding applyPush_def Let_def
  by (rule fold_length_inv) (simp add: length_fold_upd split: option.split)

lemma length_handleCollisions: "length (handleCollisions ps sz) = length ps"
proof -
  have inner: "\<And>c i cell rs. length (fold (\<lambda>j ts. visitPair c i j ts) cell rs) = length rs"
    by (rule fold_length_inv) (rule length_visitPair)
  have mid: "\<And>c i g k qs. length (fold (\<lambda>d rs. case g (shiftKey k d) of None \<Rightarrow> rs
                 | Some cell \<Rightarrow> fold (\<lambda>j ts. visitPair c i j ts) cell rs) offsets qs) = length qs"
    by (rule fold_length_inv) (simp add: inner split: option.split)
  show ?thesis
    unfolding handleCollisions_def Let_def
    by (simp add: fold_length_inv mid)
qed

lemma length_morphTick: "length (particles (morphTick t s)) = length (particles s)"
  by (simp add: morphTick_def Let_def)

lemma length_pointerTick: "length (particles (pointerTick t pos s)) = length (particles s)"
  by (simp add: pointerTick_def Let_def)

lemma length_physicsTick: "length (particles (physicsTick f s)) = length (particles s)"
  by (simp add: physicsTick_def Let_def length_applyPush length_handleCollisions length_morphTick)

lemma length_animate: "length (particles (animate av f s)) = length (particles s)"
  by (simp add: animate_def propsTick_def Let_def length_pointerTick length_physicsTick)

lemma mesh_morphTick: "instancedMesh (morphTick t s) = instancedMesh s"
  by (simp add: morphTick_def Let_def)

lemma mesh_animate: "instancedMesh (animate av f s) = instancedMesh s"
  by (simp add: animate_def propsTick_def Let_def pointerTick_def physicsTick_def mesh_morphTick)

lemma length_sourceLoaded:
  "instancedMesh s \<Longrightarrow> length (particles (sourceLoaded av v r d s)) = length (particles s)"
  by (simp add: sourceLoaded_def Let_def length_remap)

lemma mesh_sourceLoaded: "instancedMesh s \<Longrightarrow> instancedMesh (sourceLoaded av v r d s)"
  by (simp add: sourceLoaded_def Let_def)

lemma length_targetLoaded: "length (particles (targetLoaded av v r d s)) = length (particles s)"
  by (simp add: targetLoaded_def Let_def length_remap)

lemma mesh_targetLoaded: "instancedMesh (targetLoaded av v r d s) = instancedMesh s"
  by (simp add: targetLoaded_def Let_def)

lemma length_morphTrigger: "length (particles (morphTrigger av v t rnd d s)) = length (particles s)"
  by (simp add: morphTrigger_def Let_def length_remap split: option.split)

lemma mesh_morphTrigger: "instancedMesh (morphTrigger av v t rnd d s) = instancedMesh s"
  by (simp add: morphTrigger_def Let_def split: option.split)

lemma step_seeded:
  "instancedMesh s \<Longrightarrow>
   length (particles (step av e s)) = length (particles s) \<and> instancedMesh (step av e s)"
  by (cases e)
    (simp_all add: length_sourceLoaded mesh_sourceLoaded length_targetLoaded mesh_targetLoaded
      length_morphTrigger mesh_morphTrigger length_animate mesh_animate
      handlePointerDown_def handlePointerUp_def)

lemma seeded3_eq:
  "seeded3 = initialState\<lparr>particles := [seedParticle tint 2 0 sampleA, seedParticle tint 2 1 sampleB,
      seedParticle tint 2 2 sampleC], instancedMesh := True\<rparr>"
  by (simp add: seeded3_def sourceLoaded_def initialState_def upt_rec numeral_2_eq_2)

section \<open>Re-sampling\<close>






lemma run_seeded:
  "instancedMesh s \<Longrightarrow>
   length (particles (run av es s)) = length (particles s) \<and> instancedMesh (run av es s)"
  unfolding run_def
proof (induction es arbitrary: s)
  case Nil
  then show ?case by simp
next
  case (Cons e es)
  from step_seeded [OF Cons.prems, of av e]
  have l: "length (particles (step av e s)) = length (particles s)"
    and m: "instancedMesh (step av e s)" by simp_all
  from Cons.IH [OF m] l show ?case by simp
qed

text \<open>
  C6. Once the particle array has been seeded (the instanced mesh exists), no sequence of
  events of the component (source and target re-samplings, and also morph triggers,
  pointer presses and releases and frame ticks) changes the length of the particle array.
\<close>

theorem particle_count_invariant:
  "instancedMesh s \<Longrightarrow>
   length (particles (run av es s)) = length (particles s) \<and> instancedMesh (run av es s)"
  by (rule run_seeded)

theorem particle_count_invariant_witness:
  "instancedMesh seeded3
   \<and> length (particles (run tint [TargetLoaded 2 source [sampleD, sampleE],
        SourceLoaded 2 source [sampleA], SourceLoaded 2 source [sampleA, sampleB, sampleC, sampleD, sampleE]]
        seeded3)) = 3"
proof -
  have h1: "instancedMesh seeded3" by (simp add: seeded3_eq)
  show ?thesis
    using particle_count_invariant [OF h1, of tint] h1
    by (simp add: seeded3_eq)
qed

section \<open>Collision resolution of one pair\<close>

lemma vec3_eqI: "vx a = vx b \<Longrightarrow> vy a = vy b \<Longrightarrow> vz a = vz b \<Longrightarrow> (a::vec3) = b"
  by simp

lemma mkv_sel [simp]: "vx (mkv a b c) = a" "vy (mkv a b c) = b" "vz (mkv a b c) = c"
  by (simp_all add: mkv_def)

lemma distanceToSquared_nonneg: "0 \<le> distanceToSquared a b"
  by (simp add: distanceToSquared_def Let_def)

lemma distanceToSquared_scaled:
  assumes "vx a' - vx b' = (vx a - vx b) * k" and "vy a' - vy b' = (vy a - vy b) * k"
    and "vz a' - vz b' = (vz a - vz b) * k"
  shows "distanceToSquared a' b' = distanceToSquared a b * k\<^sup>2"
  unfolding distanceToSquared_def Let_def assms
  by (simp add: power2_eq_square algebra_simps)

lemma correction_component:
  assumes "0 < (d::real)"
  shows "(x + (x - y) * (1 / d) * ((c - d) * 0.5)) - (y - (x - y) * (1 / d) * ((c - d) * 0.5))
         = (x - y) * (c / d)"
  using assms by (simp add: field_simps)

lemma corrected_distanceSq:
  assumes "0 < distanceToSquared a b"
  shows "distanceToSquared (corrected1 c a b) (corrected2 c a b) = c\<^sup>2"
proof -
  let ?d = "distanceTo a b"
  have dpos: "0 < ?d"
    using assms by (simp add: distanceTo_def)
  have dsq: "?d\<^sup>2 = distanceToSquared a b"
    using assms by (simp add: distanceTo_def)
  have "distanceToSquared (corrected1 c a b) (corrected2 c a b)
        = distanceToSquared a b * (c / ?d)\<^sup>2"
  proof (rule distanceToSquared_scaled)
    show "vx (corrected1 c a b) - vx (corrected2 c a b) = (vx a - vx b) * (c / ?d)"
      using correction_component [OF dpos, of "vx a" "vx b" c]
      by (simp add: corrected1_def corrected2_def vadd_def subVectors_def multiplyScalar_def)
    show "vy (corrected1 c a b) - vy (corrected2 c a b) = (vy a - vy b) * (c / ?d)"
      using correction_component [OF dpos, of "vy a" "vy b" c]
      by (simp add: corrected1_def corrected2_def vadd_def subVectors_def multiplyScalar_def)
    show "vz (corrected1 c a b) - vz (corrected2 c a b) = (vz a - vz b) * (c / ?d)"
      using correction_component [OF dpos, of "vz a" "vz b" c]
      by (simp add: corrected1_def corrected2_def vadd_def subVectors_def multiplyScalar_def)
  qed
  also have "\<dots> = ?d\<^sup>2 * (c\<^sup>2 / ?d\<^sup>2)"
    by (simp add: dsq power_divide)
  also have "\<dots> = c\<^sup>2"
    using dpos by simp
  finally show ?thesis .
qed

lemma corrected_distance:
  assumes "0 < distanceToSquared a b" and "0 < c"
  shows "distanceTo (corrected1 c a b) (corrected2 c a b) = c"
  using assms by (simp add: distanceTo_def corrected_distanceSq)

lemma lengthSq_multiplyScalar: "lengthSq (multiplyScalar v k) = lengthSq v * k\<^sup>2"
  by (simp add: lengthSq_def multiplyScalar_def power2_eq_square algebra_simps)

lemma lengthSq_subVectors: "lengthSq (subVectors a b) = distanceToSquared a b"
  by (simp add: lengthSq_def subVectors_def distanceToSquared_def Let_def)

lemma normal_unit:
  assumes "0 < distanceToSquared a b"
  shows "vlength (multiplyScalar (subVectors a b) (1 / distanceTo a b)) = 1"
proof -
  let ?d = "distanceTo a b"
  have dpos: "0 < ?d"
    using assms by (simp add: distanceTo_def)
  have dsq: "distanceToSquared a b = ?d\<^sup>2"
    using assms by (simp add: distanceTo_def)
  have "lengthSq (multiplyScalar (subVectors a b) (1 / ?d)) = ?d\<^sup>2 * (1 / ?d)\<^sup>2"
    unfolding lengthSq_multiplyScalar lengthSq_subVectors using dsq by simp
  also have "\<dots> = 1"
    using dpos by (simp add: power_divide)
  finally show ?thesis
    by (simp add: vlength_def)
qed

lemma resolvePair_positions:
  assumes "0 < distanceToSquared (currentPosition p1) (currentPosition p2)"
    and "distanceToSquared (currentPosition p1) (currentPosition p2) < c * c"
  shows "currentPosition (fst (resolvePair c p1 p2))
           = corrected1 c (currentPosition p1) (currentPosition p2)"
    and "currentPosition (snd (resolvePair c p1 p2))
           = corrected2 c (currentPosition p1) (currentPosition p2)"
  using assms
  by (simp_all add: resolvePair_def Let_def corrected1_def corrected2_def distanceTo_def)

lemma resolvePair_skip:
  assumes "\<not> (0 < distanceToSquared (currentPosition p1) (currentPosition p2)
             \<and> distanceToSquared (currentPosition p1) (currentPosition p2) < c * c)"
  shows "resolvePair c p1 p2 = (p1, p2)"
  using assms by (auto simp add: resolvePair_def Let_def)

lemma visitPair_nth:
  assumes "i < length ps" and "j < length ps" and "pid (ps ! i) < pid (ps ! j)"
  shows "visitPair c i j ps ! i = fst (resolvePair c (ps ! i) (ps ! j))"
    and "visitPair c i j ps ! j = snd (resolvePair c (ps ! i) (ps ! j))"
proof -
  have ne: "i \<noteq> j"
    using assms(3) by auto
  show "visitPair c i j ps ! i = fst (resolvePair c (ps ! i) (ps ! j))"
    using assms ne by (simp add: visitPair_def Let_def)
  show "visitPair c i j ps ! j = snd (resolvePair c (ps ! i) (ps ! j))"
    using assms ne by (simp add: visitPair_def Let_def)
qed

lemma visitPair_skip:
  assumes "\<not> (0 < distanceToSquared (currentPosition (ps ! i)) (currentPosition (ps ! j))
             \<and> distanceToSquared (currentPosition (ps ! i)) (currentPosition (ps ! j)) < c * c)"
  shows "visitPair c i j ps = ps"
  using resolvePair_skip [OF assms] by (simp add: visitPair_def Let_def)

lemma sq_less_iff:
  assumes "0 < c" and "0 \<le> (x::real)"
  shows "x < c * c \<longleftrightarrow> sqrt x < c"
proof -
  have c: "sqrt (c * c) = c"
    using assms(1) by simp
  have "x < c * c \<longleftrightarrow> sqrt x < sqrt (c * c)"
    by (simp only: real_sqrt_less_iff)
  then show ?thesis
    unfolding c .
qed

lemma restingAt_sel [simp]:
  "pid (restingAt i a) = i" "currentPosition (restingAt i a) = a"
  "velocity (restingAt i a) = mkv 0 0 0" "attractorPosition (restingAt i a) = a"
  by (simp_all add: restingAt_def seedParticle_def Let_def)

lemma closePair_facts:
  "length closePair = 2" "pid (closePair ! 0) = 0" "pid (closePair ! 1) = 1"
  "currentPosition (closePair ! 0) = mkv 0 0 0" "currentPosition (closePair ! 1) = mkv 1 0 0"
  by (simp_all add: closePair_def)

lemma farPair_facts:
  "length farPair = 2" "pid (farPair ! 0) = 0" "pid (farPair ! 1) = 1"
  "currentPosition (farPair ! 0) = mkv 0 0 0" "currentPosition (farPair ! 1) = mkv 3 0 0"
  by (simp_all add: farPair_def)

lemma dist_close: "distanceTo (mkv 0 0 0) (mkv 1 0 0) = 1"
  by (simp add: distanceTo_def distanceToSquared_def)

text \<open>
  One visit of a pair of slots with \<open>p1.id < p2.id\<close>: what it does to a pair in range, and
  that it does nothing to a pair at squared distance 0 or at least \<open>(2 * particleSize)\<^sup>2\<close>.
\<close>

lemma visitPair_exact:
  assumes "0 < pSize" and "i < length ps" and "j < length ps" and "pid (ps ! i) < pid (ps ! j)"
    and "0 < distanceTo (currentPosition (ps ! i)) (currentPosition (ps ! j))"
    and "distanceTo (currentPosition (ps ! i)) (currentPosition (ps ! j)) < 2 * pSize"
  shows "let a = currentPosition (ps ! i); b = currentPosition (ps ! j);
             d = distanceTo a b;
             normal = multiplyScalar (subVectors a b) (1 / d);
             ps' = visitPair (pSize * 2) i j ps
         in vlength normal = 1
          \<and> currentPosition (ps' ! i) = vadd a (multiplyScalar normal ((2 * pSize - d) / 2))
          \<and> currentPosition (ps' ! j) = subVectors b (multiplyScalar normal ((2 * pSize - d) / 2))
          \<and> distanceTo (currentPosition (ps' ! i)) (currentPosition (ps' ! j)) = 2 * pSize"
proof -
  let ?a = "currentPosition (ps ! i)" and ?b = "currentPosition (ps ! j)"
  have c: "0 < pSize * 2"
    using assms(1) by simp
  have pos: "0 < distanceToSquared ?a ?b"
    using assms(5) by (simp add: distanceTo_def)
  have lt: "distanceToSquared ?a ?b < pSize * 2 * (pSize * 2)"
    using sq_less_iff [OF c distanceToSquared_nonneg [of ?a ?b]] assms(6)
    by (simp add: distanceTo_def mult.commute)
  have p1: "currentPosition (visitPair (pSize * 2) i j ps ! i) = corrected1 (pSize * 2) ?a ?b"
    using visitPair_nth(1) [OF assms(2,3,4)] resolvePair_positions(1) [OF pos lt] by simp
  have p2: "currentPosition (visitPair (pSize * 2) i j ps ! j) = corrected2 (pSize * 2) ?a ?b"
    using visitPair_nth(2) [OF assms(2,3,4)] resolvePair_positions(2) [OF pos lt] by simp
  have d: "distanceTo (corrected1 (pSize * 2) ?a ?b) (corrected2 (pSize * 2) ?a ?b) = 2 * pSize"
    using corrected_distance [OF pos c] by (simp add: mult.commute)
  show ?thesis
    unfolding Let_def p1 p2 d
    using normal_unit [OF pos]
    by (simp add: corrected1_def corrected2_def mult.commute)
qed

lemma visitPair_apart:
  assumes "0 < pSize" and "i < length ps" and "j < length ps" and "pid (ps ! i) < pid (ps ! j)"
  shows "let a = currentPosition (ps ! i); b = currentPosition (ps ! j);
             distanceSq = distanceToSquared a b;
             normal = multiplyScalar (subVectors a b) (1 / sqrt distanceSq);
             overlap = (2 * pSize - sqrt distanceSq) / 2;
             ps' = visitPair (pSize * 2) i j ps
         in if 0 < distanceSq \<and> distanceSq < (2 * pSize)\<^sup>2
            then 0 < overlap
               \<and> currentPosition (ps' ! i) = vadd a (multiplyScalar normal overlap)
               \<and> currentPosition (ps' ! j) = subVectors b (multiplyScalar normal overlap)
               \<and> distanceTo a b \<le> distanceTo (currentPosition (ps' ! i)) (currentPosition (ps' ! j))
            else ps' = ps"
proof (cases "0 < distanceToSquared (currentPosition (ps ! i)) (currentPosition (ps ! j))
            \<and> distanceToSquared (currentPosition (ps ! i)) (currentPosition (ps ! j)) < (2 * pSize)\<^sup>2")
  case True
  let ?a = "currentPosition (ps ! i)" and ?b = "currentPosition (ps ! j)"
  have c: "0 < pSize * 2"
    using assms(1) by simp
  have pos: "0 < distanceToSquared ?a ?b"
    using True by simp
  have lt: "distanceToSquared ?a ?b < pSize * 2 * (pSize * 2)"
    using True by (simp add: power2_eq_square mult.commute)
  have dlt: "distanceTo ?a ?b < pSize * 2"
    using sq_less_iff [OF c distanceToSquared_nonneg [of ?a ?b]] lt
    by (simp add: distanceTo_def)
  have p1: "currentPosition (visitPair (pSize * 2) i j ps ! i) = corrected1 (pSize * 2) ?a ?b"
    using visitPair_nth(1) [OF assms(2,3,4)] resolvePair_positions(1) [OF pos lt] by simp
  have p2: "currentPosition (visitPair (pSize * 2) i j ps ! j) = corrected2 (pSize * 2) ?a ?b"
    using visitPair_nth(2) [OF assms(2,3,4)] resolvePair_positions(2) [OF pos lt] by simp
  have d: "distanceTo (corrected1 (pSize * 2) ?a ?b) (corrected2 (pSize * 2) ?a ?b) = pSize * 2"
    by (rule corrected_distance [OF pos c])
  show ?thesis
    unfolding Let_def p1 p2 d
    using True dlt
    by (simp add: corrected1_def corrected2_def distanceTo_def mult.commute)
next
  case False
  then have "\<not> (0 < distanceToSquared (currentPosition (ps ! i)) (currentPosition (ps ! j))
             \<and> distanceToSquared (currentPosition (ps ! i)) (currentPosition (ps ! j))
                 < pSize * 2 * (pSize * 2))"
    by (simp add: power2_eq_square mult.commute)
  from visitPair_skip [OF this] have eq: "visitPair (pSize * 2) i j ps = ps" .
  show ?thesis
    unfolding Let_def if_not_P [OF False] by (rule eq)
qed

section \<open>Stages of the tick\<close>

subsection \<open>Stages that only move particles\<close>

lemma sameHome_refl: "sameHome p p"
  by (simp add: sameHome_def)

lemma sameHome_trans: "sameHome p q \<Longrightarrow> sameHome q r \<Longrightarrow> sameHome p r"
  by (simp add: sameHome_def)

lemma all2_sameHome_refl: "list_all2 sameHome ps ps"
  by (simp add: list_all2_refl sameHome_refl)

lemma all2_sameHome_trans:
  "list_all2 sameHome ps qs \<Longrightarrow> list_all2 sameHome qs rs \<Longrightarrow> list_all2 sameHome ps rs"
  by (rule list_all2_trans [of sameHome sameHome sameHome, OF sameHome_trans])

lemma all2_sameHome_update:
  assumes "sameHome (ps ! i) q"
  shows "list_all2 sameHome ps (ps[i := q])"
proof -
  have "sameHome (ps ! k) (ps[i := q] ! k)" if "k < length ps" for k
    using that assms by (cases "k = i") (simp_all add: sameHome_refl)
  then show ?thesis
    by (simp add: list_all2_conv_all_nth)
qed

lemma fold_sameHome:
  assumes "\<And>x ys. list_all2 sameHome ys (F x ys)"
  shows "list_all2 sameHome ys (fold F xs ys)"
proof (induction xs arbitrary: ys)
  case Nil
  show ?case by (simp add: all2_sameHome_refl)
next
  case (Cons x xs)
  have "list_all2 sameHome ys (F x ys)" by (rule assms)
  moreover have "list_all2 sameHome (F x ys) (fold F xs (F x ys))" by (rule Cons.IH)
  ultimately show ?case
    using all2_sameHome_trans by simp
qed

lemma sameHome_pushParticle: "sameHome p (pushParticle r st pos p)"
  by (simp add: pushParticle_def Let_def sameHome_def)

lemma sameHome_integrate: "sameHome p (integrate k d p)"
  by (simp add: integrate_def Let_def sameHome_def)

lemma sameHome_pushSimple: "sameHome p (pushSimple pos p)"
  by (simp add: pushSimple_def Let_def sameHome_def)

lemma sameHome_resolvePair:
  "sameHome p1 (fst (resolvePair c p1 p2))" "sameHome p2 (snd (resolvePair c p1 p2))"
  by (simp_all add: resolvePair_def Let_def sameHome_def)

lemma sameHome_visitPair: "list_all2 sameHome ps (visitPair c i j ps)"
proof (cases "pid (ps ! j) \<le> pid (ps ! i)")
  case True
  then show ?thesis by (simp add: visitPair_def all2_sameHome_refl)
next
  case False
  then have ne: "i \<noteq> j" by auto
  let ?q = "resolvePair c (ps ! i) (ps ! j)"
  have a: "list_all2 sameHome ps (ps[i := fst ?q])"
    by (rule all2_sameHome_update) (rule sameHome_resolvePair)
  have "sameHome (ps ! j) (snd ?q)" by (rule sameHome_resolvePair)
  then have "sameHome (ps[i := fst ?q] ! j) (snd ?q)"
    using ne by simp
  then have b: "list_all2 sameHome (ps[i := fst ?q]) ((ps[i := fst ?q])[j := snd ?q])"
    by (rule all2_sameHome_update)
  show ?thesis
    using False all2_sameHome_trans [OF a b] by (simp add: visitPair_def Let_def)
qed

lemma sameHome_applyPush: "list_all2 sameHome ps (applyPush r st pos ps)"
proof -
  have inner: "\<And>cell qs. list_all2 sameHome qs
      (fold (\<lambda>i rs. rs[i := pushParticle r st pos (rs ! i)]) cell qs)"
    by (rule fold_sameHome) (simp add: all2_sameHome_update sameHome_pushParticle)
  show ?thesis
    unfolding applyPush_def Let_def
    by (rule fold_sameHome) (simp add: inner all2_sameHome_refl split: option.split)
qed

lemma sameHome_handleCollisions: "list_all2 sameHome ps (handleCollisions ps sz)"
proof -
  have inner: "\<And>c i cell rs. list_all2 sameHome rs (fold (\<lambda>j ts. visitPair c i j ts) cell rs)"
    by (rule fold_sameHome) (rule sameHome_visitPair)
  have mid: "\<And>c i g k qs. list_all2 sameHome qs
      (fold (\<lambda>d rs. case g (shiftKey k d) of None \<Rightarrow> rs
                 | Some cell \<Rightarrow> fold (\<lambda>j ts. visitPair c i j ts) cell rs) offsets qs)"
    by (rule fold_sameHome) (simp add: inner all2_sameHome_refl split: option.split)
  have outer: "\<And>c g. list_all2 sameHome ps
      (fold (\<lambda>i qs. fold (\<lambda>d rs. case g (shiftKey (getCellKey c (currentPosition (qs ! i))) d) of
                 None \<Rightarrow> rs
               | Some cell \<Rightarrow> fold (\<lambda>j ts. visitPair c i j ts) cell rs) offsets qs)
         [0..<length ps] ps)"
    by (rule fold_sameHome) (rule mid)
  show ?thesis
    unfolding handleCollisions_def Let_def
    by (simp add: all2_sameHome_refl outer)
qed

lemma sameHome_map_integrate: "list_all2 sameHome ps (map (integrate k d) ps)"
  by (simp add: list_all2_conv_all_nth sameHome_integrate)

text \<open>The physics stages after the morph branch keep every home field.\<close>

lemma physicsTick_sameHome:
  "list_all2 sameHome
     (particles (if isMorphing (morphState s) then morphTick (now f) s else s))
     (particles (physicsTick f s))"
proof -
  let ?s3 = "if isMorphing (morphState s) then morphTick (now f) s else s"
  let ?fp = "animatedForce ?s3"
  let ?ps4 = "if enablePushForce (targetProps f) \<and> mouseInteractionState ?s3 = none
                    \<and> pushRadius ?fp > 0
                 then applyPush (pushRadius ?fp) (pushStrength ?fp) (pointer f) (particles ?s3)
                 else particles ?s3"
  let ?ps5 = "map (integrate (returnStrength ?fp) (damping ?fp)) ?ps4"
  let ?ps6 = "if enableCollisions (targetProps f) then handleCollisions ?ps5 (particleSize ?fp)
                 else ?ps5"
  have a: "list_all2 sameHome (particles ?s3) ?ps4"
    using sameHome_applyPush all2_sameHome_refl by presburger
  have b: "list_all2 sameHome ?ps4 ?ps5"
    by (rule sameHome_map_integrate)
  have c: "list_all2 sameHome ?ps5 ?ps6"
    using sameHome_handleCollisions all2_sameHome_refl by presburger
  have "particles (physicsTick f s) = ?ps6"
    by (simp add: physicsTick_def Let_def)
  then show ?thesis
    using all2_sameHome_trans [OF all2_sameHome_trans [OF a b] c] by simp
qed

lemma physicsTick_morphState:
  "morphState (physicsTick f s)
     = morphState (if isMorphing (morphState s) then morphTick (now f) s else s)"
  "completed (physicsTick f s)
     = completed (if isMorphing (morphState s) then morphTick (now f) s else s)"
  "mouseInteractionState (physicsTick f s) = mouseInteractionState s"
  by (simp_all add: physicsTick_def Let_def morphTick_def)

lemma propsTick_fields:
  "morphState (propsTick av f s) = morphState s"
  "completed (propsTick av f s) = completed s"
  "mouseInteractionState (propsTick av f s) = mouseInteractionState s"
  "mouseInteractionStartTime (propsTick av f s) = mouseInteractionStartTime s"
  "instancedMesh (propsTick av f s) = instancedMesh s"
  "length (particles (propsTick av f s)) = length (particles s)"
  by (simp_all add: propsTick_def Let_def)

lemma propsTick_particle:
  assumes "i < length (particles s)"
  shows "attractorPosition (particles (propsTick av f s) ! i) = attractorPosition (particles s ! i)"
    and "sourcePosition (particles (propsTick av f s) ! i) = sourcePosition (particles s ! i)"
    and "targetPosition (particles (propsTick av f s) ! i) = targetPosition (particles s ! i)"
    and "burstPosition (particles (propsTick av f s) ! i) = burstPosition (particles s ! i)"
    and "isMorphing (morphState s) \<Longrightarrow>
         currentColor (particles (propsTick av f s) ! i) = currentColor (particles s ! i)"
  using assms by (simp_all add: propsTick_def Let_def recolor_def)

lemma pointerTick_fields:
  "morphState (pointerTick t pos s) = morphState s"
  "completed (pointerTick t pos s) = completed s"
  by (simp_all add: pointerTick_def Let_def)

lemma pointerTick_particle:
  assumes "i < length (particles s)"
  shows "attractorPosition (particles (pointerTick t pos s) ! i) = attractorPosition (particles s ! i)"
    and "currentColor (particles (pointerTick t pos s) ! i) = currentColor (particles s ! i)"
  using assms by (simp_all add: pointerTick_def Let_def pointerOverride_def split: mouseInteraction.split)

lemma animate_pointer:
  assumes "instancedMesh s" and "particles s \<noteq> []" and "mouseInteractionState s \<noteq> none"
  shows "animate av f s = pointerTick (now f) (pointer f) (propsTick av f s)"
  using assms by (simp add: animate_def Let_def propsTick_fields)

lemma animate_physics:
  assumes "instancedMesh s" and "particles s \<noteq> []" and "mouseInteractionState s = none"
  shows "animate av f s = physicsTick f (propsTick av f s)"
  using assms by (simp add: animate_def Let_def propsTick_fields)

lemma animateSimple_pointer:
  assumes "instancedMesh s" and "particles s \<noteq> []" and "mouseInteractionState s \<noteq> none"
  shows "animateSimple t pos s = pointerTick t pos s"
  using assms by (simp add: animateSimple_def)

text \<open>What a tick does to the morph state and to the callback log.\<close>

lemma morphTick_fields:
  "morphState (morphTick t s)
     = (if duration (morphState s) \<le> t - startTime (morphState s)
        then (morphState s)\<lparr>isMorphing := False\<rparr> else morphState s)"
  "completed (morphTick t s)
     = (if duration (morphState s) \<le> t - startTime (morphState s)
        then completed s @ [direction (morphState s)] else completed s)"
  by (simp_all add: morphTick_def Let_def)

lemma animate_morphState:
  "morphState (animate av f s)
     = (if completes (now f) s then (morphState s)\<lparr>isMorphing := False\<rparr> else morphState s)"
proof (cases "instancedMesh s \<and> particles s \<noteq> []")
  case False
  then show ?thesis by (auto simp add: animate_def completes_def)
next
  case True
  show ?thesis
  proof (cases "mouseInteractionState s = none")
    case True
    with \<open>instancedMesh s \<and> particles s \<noteq> []\<close> show ?thesis
      by (simp add: animate_physics physicsTick_morphState propsTick_fields morphTick_fields
          completes_def)
  next
    case False
    with \<open>instancedMesh s \<and> particles s \<noteq> []\<close> show ?thesis
      by (simp add: animate_pointer pointerTick_fields propsTick_fields completes_def)
  qed
qed

lemma animate_completed:
  "completed (animate av f s)
     = (if completes (now f) s then completed s @ [direction (morphState s)] else completed s)"
proof (cases "instancedMesh s \<and> particles s \<noteq> []")
  case False
  then show ?thesis by (auto simp add: animate_def completes_def)
next
  case True
  show ?thesis
  proof (cases "mouseInteractionState s = none")
    case True
    with \<open>instancedMesh s \<and> particles s \<noteq> []\<close> show ?thesis
      by (simp add: animate_physics physicsTick_morphState propsTick_fields morphTick_fields
          completes_def)
  next
    case False
    with \<open>instancedMesh s \<and> particles s \<noteq> []\<close> show ?thesis
      by (simp add: animate_pointer pointerTick_fields propsTick_fields completes_def)
  qed
qed

lemma animate_snap:
  assumes "completes (now f) s" and "i < length (particles s)"
  shows "attractorPosition (particles (animate av f s) ! i)
           = arrivalPosition (direction (morphState s)) (particles (animate av f s) ! i)"
    and "currentColor (particles (animate av f s) ! i)
           = arrivalColor (direction (morphState s)) (particles (animate av f s) ! i)"
    and "targetPosition (particles (animate av f s) ! i) = targetPosition (particles s ! i)"
    and "sourcePosition (particles (animate av f s) ! i) = sourcePosition (particles s ! i)"
proof -
  let ?s2 = "propsTick av f s"
  let ?d = "direction (morphState s)"
  have ready: "instancedMesh s" "particles s \<noteq> []" "mouseInteractionState s = none"
    and m: "isMorphing (morphState s)"
    and t: "duration (morphState s) \<le> now f - startTime (morphState s)"
    using assms(1) by (simp_all add: completes_def)
  have an: "animate av f s = physicsTick f ?s2"
    by (rule animate_physics [OF ready])
  have i2: "i < length (particles ?s2)"
    using assms(2) by (simp add: propsTick_fields)
  have "particles (morphTick (now f) ?s2) = map (snap ?d) (particles ?s2)"
    using t by (simp add: morphTick_def Let_def propsTick_fields)
  then have "list_all2 sameHome (map (snap ?d) (particles ?s2)) (particles (animate av f s))"
    using physicsTick_sameHome [of ?s2 f] m by (simp add: an propsTick_fields)
  then have sh: "sameHome (snap ?d (particles ?s2 ! i)) (particles (animate av f s) ! i)"
    using i2 by (simp add: list_all2_conv_all_nth)
  show "attractorPosition (particles (animate av f s) ! i)
           = arrivalPosition ?d (particles (animate av f s) ! i)"
    using sh by (simp add: sameHome_def snap_def arrivalPosition_def)
  show "currentColor (particles (animate av f s) ! i)
           = arrivalColor ?d (particles (animate av f s) ! i)"
    using sh by (simp add: sameHome_def snap_def arrivalColor_def)
  show "targetPosition (particles (animate av f s) ! i) = targetPosition (particles s ! i)"
    using sh propsTick_particle(3) [OF assms(2), of av f] by (simp add: sameHome_def snap_def)
  show "sourcePosition (particles (animate av f s) ! i) = sourcePosition (particles s ! i)"
    using sh propsTick_particle(2) [OF assms(2), of av f] by (simp add: sameHome_def snap_def)
qed

lemma animateSimple_unfold:
  assumes "completes t s"
  shows "animateSimple t pos s
           = s\<lparr>particles := map (\<lambda>p. integrate 0.02 0.92 (pushSimple pos (snap (direction (morphState s)) p)))
                              (particles s),
                morphState := (morphState s)\<lparr>isMorphing := False\<rparr>,
                completed := completed s @ [direction (morphState s)]\<rparr>"
proof -
  have ready: "instancedMesh s" "particles s \<noteq> []" "mouseInteractionState s = none"
    and m: "isMorphing (morphState s)"
    and d: "duration (morphState s) \<le> t - startTime (morphState s)"
    using assms(1) by (simp_all add: completes_def)
  have mt: "morphTick t s = s\<lparr>particles := map (snap (direction (morphState s))) (particles s),
                morphState := (morphState s)\<lparr>isMorphing := False\<rparr>,
                completed := completed s @ [direction (morphState s)]\<rparr>"
    using d by (simp add: morphTick_def Let_def)
  show ?thesis
    using ready m by (simp add: animateSimple_def Let_def mt comp_def)
qed

lemma animateSimple_complete:
  assumes "completes t s"
  shows "morphState (animateSimple t pos s) = (morphState s)\<lparr>isMorphing := False\<rparr>"
    and "completed (animateSimple t pos s) = completed s @ [direction (morphState s)]"
  by (simp_all add: animateSimple_unfold [OF assms])

lemma animateSimple_snap:
  assumes "completes t s" and "i < length (particles s)"
  shows "attractorPosition (particles (animateSimple t pos s) ! i)
           = arrivalPosition (direction (morphState s)) (particles s ! i)"
    and "currentColor (particles (animateSimple t pos s) ! i)
           = arrivalColor (direction (morphState s)) (particles s ! i)"
proof -
  let ?d = "direction (morphState s)"
  have p: "particles (animateSimple t pos s) ! i
             = integrate 0.02 0.92 (pushSimple pos (snap ?d (particles s ! i)))"
    using assms(2) by (simp add: animateSimple_unfold [OF assms(1)])
  have sh: "sameHome (snap ?d (particles s ! i)) (particles (animateSimple t pos s) ! i)"
    unfolding p by (rule sameHome_trans [OF sameHome_pushSimple sameHome_integrate])
  show "attractorPosition (particles (animateSimple t pos s) ! i)
           = arrivalPosition ?d (particles s ! i)"
    using sh by (simp add: sameHome_def snap_def)
  show "currentColor (particles (animateSimple t pos s) ! i) = arrivalColor ?d (particles s ! i)"
    using sh by (simp add: sameHome_def snap_def)
qed

subsection \<open>Runs without a morph trigger\<close>

lemma step_no_trigger:
  assumes "\<not> isTrigger e"
  shows "(morphState (step av e s) = morphState s \<and> completed (step av e s) = completed s)
       \<or> (isMorphing (morphState s)
          \<and> morphState (step av e s) = (morphState s)\<lparr>isMorphing := False\<rparr>
          \<and> completed (step av e s) = completed s @ [direction (morphState s)])"
proof (cases e)
  case (SourceLoaded v r d)
  then show ?thesis by (simp add: sourceLoaded_def Let_def)
next
  case (TargetLoaded v r d)
  then show ?thesis by (simp add: targetLoaded_def Let_def)
next
  case (MorphTrigger v t rnd d)
  then show ?thesis using assms by simp
next
  case (PointerDown t rb rs)
  then show ?thesis by (simp add: handlePointerDown_def)
next
  case PointerUp
  then show ?thesis by (simp add: handlePointerUp_def)
next
  case (Frame f)
  then show ?thesis
    by (simp add: animate_morphState animate_completed completes_def)
qed

lemma run_no_trigger:
  assumes "\<forall>e\<in>set es. \<not> isTrigger e"
  shows "direction (morphState (run av es s)) = direction (morphState s)
       \<and> (\<not> isMorphing (morphState s) \<longrightarrow> \<not> isMorphing (morphState (run av es s)))
       \<and> completed (run av es s)
           = completed s @ (if isMorphing (morphState s) \<and> \<not> isMorphing (morphState (run av es s))
                            then [direction (morphState s)] else [])"
  using assms
proof (induction es arbitrary: s)
  case Nil
  then show ?case by (simp add: run_def)
next
  case (Cons e es)
  let ?s1 = "step av e s"
  have r: "run av (e # es) s = run av es ?s1"
    by (simp add: run_def)
  have ih: "direction (morphState (run av es ?s1)) = direction (morphState ?s1)
       \<and> (\<not> isMorphing (morphState ?s1) \<longrightarrow> \<not> isMorphing (morphState (run av es ?s1)))
       \<and> completed (run av es ?s1)
           = completed ?s1 @ (if isMorphing (morphState ?s1) \<and> \<not> isMorphing (morphState (run av es ?s1))
                            then [direction (morphState ?s1)] else [])"
    using Cons.IH [of ?s1] Cons.prems by simp
  have "\<not> isTrigger e"
    using Cons.prems by simp
  from step_no_trigger [OF this, of av s] show ?case
  proof
    assume "morphState ?s1 = morphState s \<and> completed ?s1 = completed s"
    then show ?thesis
      using ih unfolding r by simp
  next
    assume a: "isMorphing (morphState s)
          \<and> morphState ?s1 = (morphState s)\<lparr>isMorphing := False\<rparr>
          \<and> completed ?s1 = completed s @ [direction (morphState s)]"
    then have "\<not> isMorphing (morphState ?s1)" and "direction (morphState ?s1) = direction (morphState s)"
      by simp_all
    then show ?thesis
      using ih a unfolding r by simp
  qed
qed

section \<open>Morph trigger, completion and pointer interaction\<close>

subsection \<open>The example run\<close>

lemma seeded3_fields:
  "instancedMesh seeded3" "length (particles seeded3) = 3" "morphState seeded3 = idleMorph"
  "mouseInteractionState seeded3 = none" "completed seeded3 = []"
  by (simp_all add: seeded3_eq initialState_def)

lemma seeded3_nonempty: "particles seeded3 \<noteq> []"
  by (simp add: seeded3_eq)

lemma loaded3_fields:
  "instancedMesh loaded3" "length (particles loaded3) = 3" "morphState loaded3 = idleMorph"
  "mouseInteractionState loaded3 = none" "completed loaded3 = []"
  "targetParticleData loaded3 = Some [sampleD, sampleE]"
  by (simp_all add: loaded3_def targetLoaded_def Let_def length_remap seeded3_fields
      seeded3_nonempty)

lemma loaded3_nonempty: "particles loaded3 \<noteq> []"
  using loaded3_fields(2) by auto

lemma morphing3_fields:
  "instancedMesh morphing3" "length (particles morphing3) = 3"
  "morphState morphing3 = idleMorph\<lparr>isMorphing := True, startTime := 0, direction := Some toTarget\<rparr>"
  "mouseInteractionState morphing3 = none" "completed morphing3 = []"
  "targetParticleData morphing3 = Some [sampleD, sampleE]"
  by (simp_all add: morphing3_def morphTrigger_def Let_def length_remap loaded3_fields
      loaded3_nonempty)

lemma pressed3_fields:
  "instancedMesh pressed3" "length (particles pressed3) = 3"
  "morphState pressed3 = idleMorph\<lparr>isMorphing := True, startTime := 0, direction := Some toTarget\<rparr>"
  "mouseInteractionState pressed3 = bursting" "mouseInteractionStartTime pressed3 = 3900"
  "completed pressed3 = []"
  by (simp_all add: pressed3_def handlePointerDown_def morphing3_fields)

lemma nonempty3: "length ps = 3 \<Longrightarrow> ps \<noteq> []"
  by auto

subsection \<open>Morph trigger\<close>

lemma morphTrigger_dropped:
  "morphTrigger av v t rnd None s = s"
  "targetParticleData s = None \<Longrightarrow> morphTrigger av v t rnd d s = s"
  by (simp_all add: morphTrigger_def split: option.split)

lemma morphTriggerSimple_dropped:
  "morphTriggerSimple t rnd None s = Inr s"
  "targetParticleData s = None \<Longrightarrow> morphTriggerSimple t rnd d s = Inr s"
  by (simp_all add: morphTriggerSimple_def split: option.split)

lemma morphTrigger_restart:
  assumes "targetParticleData s = Some data" and "data \<noteq> []" and "particles s \<noteq> []"
  shows "morphState (morphTrigger av v t rnd (Some d) s)
           = (morphState s)\<lparr>isMorphing := True, startTime := t, direction := Some d\<rparr>"
    and "i < length (particles s) \<Longrightarrow>
         burstPosition (particles (morphTrigger av v t rnd (Some d) s) ! i)
           = vadd (if d = toTarget then sourcePosition (particles (morphTrigger av v t rnd (Some d) s) ! i)
                   else targetPosition (particles (morphTrigger av v t rnd (Some d) s) ! i))
               (mkv ((vx (rnd i) - 0.5) * 300) ((vy (rnd i) - 0.5) * 300) ((vz (rnd i) - 0.5) * 300))"
  using assms by (simp_all add: morphTrigger_def Let_def length_remap setBurst_def)

lemma morphTriggerSimple_restart:
  assumes "targetParticleData s = Some data" and "data \<noteq> []"
  shows "\<exists>s'. morphTriggerSimple t rnd (Some d) s = Inr s'
           \<and> morphState s' = (morphState s)\<lparr>isMorphing := True, startTime := t, direction := Some d\<rparr>
           \<and> (\<forall>i<length (particles s). burstPosition (particles s' ! i)
                 = vadd (sourcePosition (particles s' ! i))
                     (mkv ((vx (rnd i) - 0.5) * 300) ((vy (rnd i) - 0.5) * 300)
                          ((vz (rnd i) - 0.5) * 300)))"
  using assms by (simp add: morphTriggerSimple_def Let_def length_remap setBurstSimple_def)

lemma handleToggleMorph_guard:
  "appIsMorphing a \<Longrightarrow> handleToggleMorph a = a"
  "falsy (targetImageUrl a) \<Longrightarrow> handleToggleMorph a = a"
  by (simp_all add: handleToggleMorph_def)

text \<open>
  C3 (as the code has it). The trigger effect of the component has no test of
  \<open>isMorphing\<close>: a trigger with a direction that arrives while a morph is in flight, with
  target data loaded and both arrays non-empty, restarts the morph (start time set to
  the time of the trigger, direction overwritten, every burst position recomputed from
  fresh random numbers), in \<^verbatim>\<open>Framer.tsx\<close> and in \<^verbatim>\<open>ImageParticleEffect.tsx\<close> alike. A
  trigger with a null direction or with no target data loaded leaves the state as it is
  and nothing is queued. Only the button handler of \<^verbatim>\<open>App.tsx\<close> ignores a request while
  its own morphing flag is set or no target image is chosen.
\<close>

theorem morph_trigger_reentry:
  assumes "isMorphing (morphState s)" and "targetParticleData s = Some data" and "data \<noteq> []"
    and "particles s \<noteq> []"
  shows "(let s' = morphTrigger av v t rnd (Some d) s
          in morphState s' = (morphState s)\<lparr>isMorphing := True, startTime := t, direction := Some d\<rparr>
           \<and> (\<forall>i<length (particles s).
                 burstPosition (particles s' ! i)
                   = vadd (if d = toTarget then sourcePosition (particles s' ! i)
                           else targetPosition (particles s' ! i))
                       (mkv ((vx (rnd i) - 0.5) * 300) ((vy (rnd i) - 0.5) * 300)
                            ((vz (rnd i) - 0.5) * 300))))
       \<and> (\<exists>s'. morphTriggerSimple t rnd (Some d) s = Inr s'
             \<and> morphState s' = (morphState s)\<lparr>isMorphing := True, startTime := t, direction := Some d\<rparr>
             \<and> (\<forall>i<length (particles s).
                   burstPosition (particles s' ! i)
                     = vadd (sourcePosition (particles s' ! i))
                         (mkv ((vx (rnd i) - 0.5) * 300) ((vy (rnd i) - 0.5) * 300)
                              ((vz (rnd i) - 0.5) * 300))))
       \<and> morphTrigger av v t rnd None s = s
       \<and> morphTriggerSimple t rnd None s = Inr s
       \<and> morphTrigger av v t rnd dir (s\<lparr>targetParticleData := None\<rparr>) = s\<lparr>targetParticleData := None\<rparr>
       \<and> morphTriggerSimple t rnd dir (s\<lparr>targetParticleData := None\<rparr>)
           = Inr (s\<lparr>targetParticleData := None\<rparr>)
       \<and> handleToggleMorph (a\<lparr>appIsMorphing := True\<rparr>) = a\<lparr>appIsMorphing := True\<rparr>
       \<and> handleToggleMorph (a\<lparr>targetImageUrl := None\<rparr>) = a\<lparr>targetImageUrl := None\<rparr>"
proof -
  have 1: "morphState (morphTrigger av v t rnd (Some d) s)
           = (morphState s)\<lparr>isMorphing := True, startTime := t, direction := Some d\<rparr>"
    by (rule morphTrigger_restart(1) [OF assms(2,3,4)])
  have 2: "\<forall>i<length (particles s).
                 burstPosition (particles (morphTrigger av v t rnd (Some d) s) ! i)
                   = vadd (if d = toTarget
                           then sourcePosition (particles (morphTrigger av v t rnd (Some d) s) ! i)
                           else targetPosition (particles (morphTrigger av v t rnd (Some d) s) ! i))
                       (mkv ((vx (rnd i) - 0.5) * 300) ((vy (rnd i) - 0.5) * 300)
                            ((vz (rnd i) - 0.5) * 300))"
    using morphTrigger_restart(2) [OF assms(2,3,4)] by blast
  note 3 = morphTriggerSimple_restart [OF assms(2,3), of t rnd d]
  have 4: "morphTrigger av v t rnd dir (s\<lparr>targetParticleData := None\<rparr>) = s\<lparr>targetParticleData := None\<rparr>"
    by (rule morphTrigger_dropped(2)) simp
  have 5: "morphTriggerSimple t rnd dir (s\<lparr>targetParticleData := None\<rparr>)
           = Inr (s\<lparr>targetParticleData := None\<rparr>)"
    by (rule morphTriggerSimple_dropped(2)) simp
  have 6: "handleToggleMorph (a\<lparr>appIsMorphing := True\<rparr>) = a\<lparr>appIsMorphing := True\<rparr>"
    by (rule handleToggleMorph_guard(1)) simp
  have 7: "handleToggleMorph (a\<lparr>targetImageUrl := None\<rparr>) = a\<lparr>targetImageUrl := None\<rparr>"
    by (rule handleToggleMorph_guard(2)) (simp add: falsy_def)
  show ?thesis
    unfolding Let_def
    using 1 2 3 4 5 6 7 morphTrigger_dropped(1) [of av v t rnd s]
      morphTriggerSimple_dropped(1) [of t rnd s]
    by blast
qed

theorem morph_trigger_reentry_counterexample:
  "isMorphing (morphState morphing3) \<and> startTime (morphState morphing3) = 0
   \<and> direction (morphState morphing3) = Some toTarget
   \<and> startTime (morphState (morphTrigger tint 2 1000 rnd0 (Some toSource) morphing3)) = 1000
   \<and> direction (morphState (morphTrigger tint 2 1000 rnd0 (Some toSource) morphing3)) = Some toSource"
  by (simp add: morphing3_fields morphTrigger_restart(1) [of morphing3 "[sampleD, sampleE]"]
      nonempty3 idleMorph_def)

theorem morph_trigger_reentry_witness:
  "isMorphing (morphState morphing3) \<and> targetParticleData morphing3 = Some [sampleD, sampleE]
   \<and> [sampleD, sampleE] \<noteq> [] \<and> particles morphing3 \<noteq> []
   \<and> morphState (morphTrigger tint 2 1000 rnd0 (Some toSource) morphing3)
       = (morphState morphing3)\<lparr>isMorphing := True, startTime := 1000, direction := Some toSource\<rparr>
   \<and> morphTrigger tint 2 1000 rnd0 None morphing3 = morphing3"
proof -
  have h1: "isMorphing (morphState morphing3)"
    by (simp add: morphing3_fields)
  have h2: "targetParticleData morphing3 = Some [sampleD, sampleE]"
    by (simp add: morphing3_fields)
  have h3: "[sampleD, sampleE] \<noteq> []" by simp
  have h4: "particles morphing3 \<noteq> []"
    by (simp add: nonempty3 morphing3_fields)
  note w = morph_trigger_reentry [OF h1 h2 h3 h4, of tint 2 1000 rnd0 toSource None exampleApp,
      unfolded Let_def]
  have a: "morphState (morphTrigger tint 2 1000 rnd0 (Some toSource) morphing3)
       = (morphState morphing3)\<lparr>isMorphing := True, startTime := 1000, direction := Some toSource\<rparr>"
    using w [THEN conjunct1, THEN conjunct1] .
  have b: "morphTrigger tint 2 1000 rnd0 None morphing3 = morphing3"
    using w [THEN conjunct2, THEN conjunct2, THEN conjunct1] .
  from h1 h2 h3 h4 a b show ?thesis by blast
qed

lemma morphTrigger_completed: "completed (morphTrigger av v t rnd d s) = completed s"
  by (simp add: morphTrigger_def Let_def split: option.split)

lemma animate_mouse:
  "mouseInteractionState (animate av f s)
     = (if instancedMesh s \<and> particles s \<noteq> [] \<and> mouseInteractionState s = bursting
           \<and> now f - mouseInteractionStartTime s > 400
        then attracting else mouseInteractionState s)"
proof (cases "instancedMesh s \<and> particles s \<noteq> []")
  case False
  then show ?thesis by (auto simp add: animate_def)
next
  case True
  show ?thesis
  proof (cases "mouseInteractionState s = none")
    case True
    with \<open>instancedMesh s \<and> particles s \<noteq> []\<close> show ?thesis
      by (simp add: animate_physics physicsTick_morphState propsTick_fields)
  next
    case False
    with \<open>instancedMesh s \<and> particles s \<noteq> []\<close> show ?thesis
      by (simp add: animate_pointer pointerTick_def Let_def propsTick_fields)
  qed
qed

lemma animate_startTime:
  "mouseInteractionStartTime (animate av f s) = mouseInteractionStartTime s"
  by (simp add: animate_def propsTick_def pointerTick_def physicsTick_def morphTick_def Let_def)

lemma animate_nonempty: "particles (animate av f s) = [] \<longleftrightarrow> particles s = []"
  using length_animate [of av f s] by (metis length_0_conv)

lemma handlePointerDown_fields:
  "instancedMesh (handlePointerDown t rb rs s) = instancedMesh s"
  "morphState (handlePointerDown t rb rs s) = morphState s"
  "completed (handlePointerDown t rb rs s) = completed s"
  "mouseInteractionState (handlePointerDown t rb rs s) = bursting"
  "mouseInteractionStartTime (handlePointerDown t rb rs s) = t"
  "particles (handlePointerDown t rb rs s) = [] \<longleftrightarrow> particles s = []"
  by (simp_all add: handlePointerDown_def)

lemma handlePointerUp_fields:
  "instancedMesh (handlePointerUp s) = instancedMesh s"
  "morphState (handlePointerUp s) = morphState s"
  "completed (handlePointerUp s) = completed s"
  "mouseInteractionState (handlePointerUp s) = none"
  "particles (handlePointerUp s) = particles s"
  by (simp_all add: handlePointerUp_def)

text \<open>
  C1 (as the code has it). Take an accepted morph request with direction \<open>d\<close> and any
  events after it that hold no further trigger. The callback has not fired before
  completion. On a tick with no pointer interaction active at which the elapsed time has
  reached the duration, every particle's attractor is its arrival-role home position
  and its current colour its arrival-role colour, the controller is idle and the callback
  log has grown by exactly \<open>d\<close>; no later event without a trigger fires the callback
  again. The tick of \<^verbatim>\<open>ImageParticleEffect.tsx\<close> does the same.
\<close>

theorem morph_completion_once:
  assumes "targetParticleData s0 = Some data" and "data \<noteq> []" and "particles s0 \<noteq> []"
    and "noTrigger es" and "noTrigger es'"
    and "s = run av es (morphTrigger av v t0 rnd (Some d) s0)"
    and "completes (now f) s"
  shows "completed s = completed s0
       \<and> (let s' = animate av f s
          in \<not> isMorphing (morphState s') \<and> completed s' = completed s0 @ [Some d]
           \<and> length (particles s') = length (particles s)
           \<and> (\<forall>i<length (particles s).
                 attractorPosition (particles s' ! i) = arrivalPosition (Some d) (particles s' ! i)
               \<and> currentColor (particles s' ! i) = arrivalColor (Some d) (particles s' ! i)
               \<and> targetPosition (particles s' ! i) = targetPosition (particles s ! i)
               \<and> sourcePosition (particles s' ! i) = sourcePosition (particles s ! i))
           \<and> completed (run av es' s') = completed s0 @ [Some d])
       \<and> (let s' = animateSimple (now f) (pointer f) s
          in \<not> isMorphing (morphState s') \<and> completed s' = completed s0 @ [Some d]
           \<and> (\<forall>i<length (particles s).
                 attractorPosition (particles s' ! i) = arrivalPosition (Some d) (particles s ! i)
               \<and> currentColor (particles s' ! i) = arrivalColor (Some d) (particles s ! i)))"
proof -
  let ?s1 = "morphTrigger av v t0 rnd (Some d) s0"
  have m: "isMorphing (morphState s)"
    using assms(7) by (simp add: completes_def)
  have d1: "direction (morphState ?s1) = Some d" and m1: "isMorphing (morphState ?s1)"
    by (simp_all add: morphTrigger_restart(1) [OF assms(1,2,3)])
  have dir: "direction (morphState s) = Some d"
    using run_no_trigger [OF assms(4) [unfolded noTrigger_def], of av ?s1] d1 by (simp add: assms(6))
  have c0: "completed s = completed s0"
    using run_no_trigger [OF assms(4) [unfolded noTrigger_def], of av ?s1] m
    by (simp add: assms(6) [symmetric] morphTrigger_completed)
  have a1: "\<not> isMorphing (morphState (animate av f s))"
    using assms(7) by (simp add: animate_morphState)
  have a2: "completed (animate av f s) = completed s0 @ [Some d]"
    using assms(7) by (simp add: animate_completed dir c0)
  have a3: "\<forall>i<length (particles s).
                 attractorPosition (particles (animate av f s) ! i)
                   = arrivalPosition (Some d) (particles (animate av f s) ! i)
               \<and> currentColor (particles (animate av f s) ! i)
                   = arrivalColor (Some d) (particles (animate av f s) ! i)
               \<and> targetPosition (particles (animate av f s) ! i) = targetPosition (particles s ! i)
               \<and> sourcePosition (particles (animate av f s) ! i) = sourcePosition (particles s ! i)"
    using animate_snap [OF assms(7), of _ av] unfolding dir by blast
  have a4: "completed (run av es' (animate av f s)) = completed s0 @ [Some d]"
    using run_no_trigger [OF assms(5) [unfolded noTrigger_def], of av "animate av f s"] a1 a2 by simp
  have b1: "\<not> isMorphing (morphState (animateSimple (now f) (pointer f) s))"
    by (simp add: animateSimple_complete(1) [OF assms(7)])
  have b2: "completed (animateSimple (now f) (pointer f) s) = completed s0 @ [Some d]"
    by (simp add: animateSimple_complete(2) [OF assms(7)] dir c0)
  have b3: "\<forall>i<length (particles s).
                 attractorPosition (particles (animateSimple (now f) (pointer f) s) ! i)
                   = arrivalPosition (Some d) (particles s ! i)
               \<and> currentColor (particles (animateSimple (now f) (pointer f) s) ! i)
                   = arrivalColor (Some d) (particles s ! i)"
    using animateSimple_snap [OF assms(7)] unfolding dir by blast
  show ?thesis
    unfolding Let_def
    using c0 a1 a2 a3 a4 b1 b2 b3 length_animate [of av f s] by blast
qed

theorem morph_completion_once_counterexample:
  "isMorphing (morphState pressed3) \<and> direction (morphState pressed3) = Some toTarget
   \<and> duration (morphState pressed3) \<le> now (frameAt 4000) - startTime (morphState pressed3)
   \<and> mouseInteractionState pressed3 = bursting
   \<and> isMorphing (morphState (animate tint (frameAt 4000) pressed3))
   \<and> completed (animate tint (frameAt 4000) pressed3) = []"
  by (simp add: pressed3_fields animate_morphState animate_completed completes_def idleMorph_def
      frameAt_def)

lemma ripe3_completes: "completes (now (frameAt 4000)) ripe3"
  by (simp add: ripe3_def beforeCompletion_def run_def completes_def
      mesh_animate animate_nonempty animate_mouse animate_startTime animate_morphState
      handlePointerDown_fields handlePointerUp_fields morphing3_fields nonempty3
      idleMorph_def frameAt_def)

theorem morph_completion_once_witness:
  "targetParticleData loaded3 = Some [sampleD, sampleE] \<and> [sampleD, sampleE] \<noteq> []
   \<and> particles loaded3 \<noteq> []
   \<and> noTrigger beforeCompletion \<and> noTrigger afterCompletion
   \<and> ripe3 = run tint beforeCompletion (morphTrigger tint 2 0 rnd0 (Some toTarget) loaded3)
   \<and> completes (now (frameAt 4000)) ripe3
   \<and> completed ripe3 = []
   \<and> \<not> isMorphing (morphState (animate tint (frameAt 4000) ripe3))
   \<and> completed (animate tint (frameAt 4000) ripe3) = [Some toTarget]
   \<and> attractorPosition (particles (animate tint (frameAt 4000) ripe3) ! 2)
       = targetPosition (particles (animate tint (frameAt 4000) ripe3) ! 2)
   \<and> completed (run tint afterCompletion (animate tint (frameAt 4000) ripe3)) = [Some toTarget]"
proof -
  have h1: "targetParticleData loaded3 = Some [sampleD, sampleE]"
    by (simp add: loaded3_fields)
  have h2: "[sampleD, sampleE] \<noteq> []" by simp
  have h3: "particles loaded3 \<noteq> []" by (rule loaded3_nonempty)
  have h4: "noTrigger beforeCompletion"
    by (simp add: noTrigger_def beforeCompletion_def)
  have h5: "noTrigger afterCompletion"
    by (simp add: noTrigger_def afterCompletion_def)
  have h6: "ripe3 = run tint beforeCompletion (morphTrigger tint 2 0 rnd0 (Some toTarget) loaded3)"
    by (simp add: ripe3_def morphing3_def)
  have h7: "completes (now (frameAt 4000)) ripe3" by (rule ripe3_completes)
  note w = morph_completion_once [OF h1 h2 h3 h4 h5 h6 h7, unfolded Let_def]
  have c0: "completed loaded3 = []" by (simp add: loaded3_fields)
  have l: "(2::nat) < length (particles ripe3)"
    using run_seeded [of morphing3 tint beforeCompletion]
    by (simp add: ripe3_def morphing3_fields)
  have a: "completed ripe3 = []"
    using w [THEN conjunct1] c0 by simp
  have b: "\<not> isMorphing (morphState (animate tint (frameAt 4000) ripe3))"
    using w [THEN conjunct2, THEN conjunct1, THEN conjunct1] .
  have c: "completed (animate tint (frameAt 4000) ripe3) = [Some toTarget]"
    using w [THEN conjunct2, THEN conjunct1, THEN conjunct2, THEN conjunct1] c0 by simp
  have d: "attractorPosition (particles (animate tint (frameAt 4000) ripe3) ! 2)
       = targetPosition (particles (animate tint (frameAt 4000) ripe3) ! 2)"
    using w [THEN conjunct2, THEN conjunct1, THEN conjunct2, THEN conjunct2, THEN conjunct2,
        THEN conjunct1] l
    by (simp add: arrivalPosition_def)
  have e: "completed (run tint afterCompletion (animate tint (frameAt 4000) ripe3)) = [Some toTarget]"
    using w [THEN conjunct2, THEN conjunct1, THEN conjunct2, THEN conjunct2, THEN conjunct2,
        THEN conjunct2] c0 by simp
  from h1 h2 h3 h4 h5 h6 h7 a b c d e show ?thesis by blast
qed

lemma attracting3_fields:
  "instancedMesh attracting3" "particles attracting3 \<noteq> []"
  "mouseInteractionState attracting3 = attracting"
  "morphState attracting3 = idleMorph\<lparr>isMorphing := True, startTime := 0, direction := Some toTarget\<rparr>"
  "completed attracting3 = []"
proof -
  have p: "instancedMesh pressed3" "particles pressed3 \<noteq> []" "mouseInteractionState pressed3 \<noteq> none"
    by (simp_all add: pressed3_fields nonempty3)
  have a: "attracting3 = pointerTick 4350 (mkv 0 0 0) (propsTick tint (frameAt 4350) pressed3)"
    unfolding attracting3_def animate_pointer [OF p] by (simp add: frameAt_def)
  show "instancedMesh attracting3"
    by (simp add: attracting3_def mesh_animate pressed3_fields)
  have "length (particles attracting3) = 3"
    by (simp add: attracting3_def length_animate pressed3_fields)
  then show "particles attracting3 \<noteq> []"
    by (rule nonempty3)
  show "mouseInteractionState attracting3 = attracting"
    unfolding a by (simp add: pointerTick_def Let_def propsTick_fields pressed3_fields)
  show "morphState attracting3
          = idleMorph\<lparr>isMorphing := True, startTime := 0, direction := Some toTarget\<rparr>"
    unfolding a by (simp add: pointerTick_fields propsTick_fields pressed3_fields)
  show "completed attracting3 = []"
    unfolding a by (simp add: pointerTick_fields propsTick_fields pressed3_fields)
qed

text \<open>
  C4 (as the code has it). A tick with a pointer interaction active returns before the
  morph branch: if the elapsed time of a morph has reached the duration on such a tick,
  the morph state, the callback log, the attractors and the current colours are left
  as they were. Completion (snap, idle, callback) happens on the tick after the pointer
  is released.
\<close>

theorem pointer_defers_completion:
  assumes "instancedMesh s" and "particles s \<noteq> []" and "mouseInteractionState s \<noteq> none"
    and "isMorphing (morphState s)"
    and "duration (morphState s) \<le> now f - startTime (morphState s)" and "now f \<le> now g"
  shows "(let s' = animate av f s
          in morphState s' = morphState s \<and> completed s' = completed s
           \<and> (\<forall>i<length (particles s).
                 attractorPosition (particles s' ! i) = attractorPosition (particles s ! i)
               \<and> currentColor (particles s' ! i) = currentColor (particles s ! i)))
       \<and> (let s'' = animate av g (handlePointerUp (animate av f s))
          in \<not> isMorphing (morphState s'')
           \<and> completed s'' = completed s @ [direction (morphState s)]
           \<and> (\<forall>i<length (particles s).
                 attractorPosition (particles s'' ! i)
                   = arrivalPosition (direction (morphState s)) (particles s'' ! i)
               \<and> currentColor (particles s'' ! i)
                   = arrivalColor (direction (morphState s)) (particles s'' ! i)))"
proof -
  let ?s1 = "animate av f s"
  let ?s2 = "handlePointerUp ?s1"
  have nc: "\<not> completes (now f) s"
    using assms(3) by (simp add: completes_def)
  have m1: "morphState ?s1 = morphState s"
    using nc by (simp add: animate_morphState)
  have c1: "completed ?s1 = completed s"
    using nc by (simp add: animate_completed)
  have an: "?s1 = pointerTick (now f) (pointer f) (propsTick av f s)"
    by (rule animate_pointer [OF assms(1,2,3)])
  have p1: "\<forall>i<length (particles s).
                 attractorPosition (particles ?s1 ! i) = attractorPosition (particles s ! i)
               \<and> currentColor (particles ?s1 ! i) = currentColor (particles s ! i)"
    unfolding an
    using assms(4)
    by (simp add: pointerTick_particle propsTick_fields propsTick_particle)
  have l1: "length (particles ?s1) = length (particles s)"
    by (rule length_animate)
  have cp: "completes (now g) ?s2"
    using assms l1
    by (auto simp add: completes_def handlePointerUp_def mesh_animate m1)
  have l2: "length (particles ?s2) = length (particles s)"
    using l1 by (simp add: handlePointerUp_def)
  have d2: "direction (morphState ?s2) = direction (morphState s)"
    by (simp add: handlePointerUp_def m1)
  have m3: "\<not> isMorphing (morphState (animate av g ?s2))"
    using cp by (simp add: animate_morphState)
  have c3: "completed (animate av g ?s2) = completed s @ [direction (morphState s)]"
    using cp d2 by (simp add: animate_completed) (simp add: handlePointerUp_def c1)
  have p3: "\<forall>i<length (particles s).
                 attractorPosition (particles (animate av g ?s2) ! i)
                   = arrivalPosition (direction (morphState s)) (particles (animate av g ?s2) ! i)
               \<and> currentColor (particles (animate av g ?s2) ! i)
                   = arrivalColor (direction (morphState s)) (particles (animate av g ?s2) ! i)"
    using animate_snap(1,2) [OF cp, of _ av] l2 d2 by simp
  show ?thesis
    unfolding Let_def using m1 c1 p1 m3 c3 p3 by blast
qed

theorem pointer_defers_completion_counterexample:
  "mouseInteractionState attracting3 = attracting
   \<and> isMorphing (morphState attracting3)
   \<and> duration (morphState attracting3) \<le> now (frameAt 4400) - startTime (morphState attracting3)
   \<and> isMorphing (morphState (animate tint (frameAt 4400) attracting3))
   \<and> completed (animate tint (frameAt 4400) attracting3) = []"
  by (simp add: attracting3_fields animate_morphState animate_completed completes_def idleMorph_def
      frameAt_def)

theorem pointer_defers_completion_witness:
  "instancedMesh attracting3 \<and> particles attracting3 \<noteq> []
   \<and> mouseInteractionState attracting3 \<noteq> none \<and> isMorphing (morphState attracting3)
   \<and> duration (morphState attracting3) \<le> now (frameAt 4400) - startTime (morphState attracting3)
   \<and> now (frameAt 4400) \<le> now (frameAt 4416)
   \<and> morphState (animate tint (frameAt 4400) attracting3) = morphState attracting3
   \<and> completed (animate tint (frameAt 4400) attracting3) = []
   \<and> completed (animate tint (frameAt 4416) (handlePointerUp (animate tint (frameAt 4400) attracting3)))
       = [Some toTarget]"
proof -
  have h1: "instancedMesh attracting3" and h2: "particles attracting3 \<noteq> []"
    and h3: "mouseInteractionState attracting3 \<noteq> none"
    and h4: "isMorphing (morphState attracting3)"
    by (simp_all add: attracting3_fields)
  have h5: "duration (morphState attracting3) \<le> now (frameAt 4400) - startTime (morphState attracting3)"
    by (simp add: attracting3_fields idleMorph_def frameAt_def)
  have h6: "now (frameAt 4400) \<le> now (frameAt 4416)"
    by (simp add: frameAt_def)
  note w = pointer_defers_completion [OF h1 h2 h3 h4 h5 h6, of tint, unfolded Let_def]
  have a: "morphState (animate tint (frameAt 4400) attracting3) = morphState attracting3"
    using w [THEN conjunct1, THEN conjunct1] .
  have b: "completed (animate tint (frameAt 4400) attracting3) = []"
    using w [THEN conjunct1, THEN conjunct2, THEN conjunct1] by (simp add: attracting3_fields)
  have c: "completed (animate tint (frameAt 4416) (handlePointerUp (animate tint (frameAt 4400) attracting3)))
       = [Some toTarget]"
    using w [THEN conjunct2, THEN conjunct2, THEN conjunct1] by (simp add: attracting3_fields)
  from h1 h2 h3 h4 h5 h6 a b c show ?thesis by blast
qed

section \<open>Pointer push and force integration\<close>

subsection \<open>The grid holds every index once, in the cell of its key\<close>

lemma insertCell_apply:
  "insertCell c ps i g k
     = (if keyOf c ps i = k then Some ((case g k of None \<Rightarrow> [] | Some cell \<Rightarrow> cell) @ [i])
        else g k)"
  by (auto simp add: insertCell_def keyOf_def Let_def)

lemma fold_insertCell:
  "fold (insertCell c ps) js g k
     = (if filter (\<lambda>i. keyOf c ps i = k) js = [] then g k
        else Some ((case g k of None \<Rightarrow> [] | Some cell \<Rightarrow> cell)
                   @ filter (\<lambda>i. keyOf c ps i = k) js))"
proof (induction js arbitrary: g)
  case Nil
  show ?case by simp
next
  case (Cons j js)
  have "fold (insertCell c ps) (j # js) g k = fold (insertCell c ps) js (insertCell c ps j g) k"
    by simp
  also have "\<dots> = (if filter (\<lambda>i. keyOf c ps i = k) js = [] then insertCell c ps j g k
        else Some ((case insertCell c ps j g k of None \<Rightarrow> [] | Some cell \<Rightarrow> cell)
                   @ filter (\<lambda>i. keyOf c ps i = k) js))"
    by (rule Cons.IH)
  also have "\<dots> = (if filter (\<lambda>i. keyOf c ps i = k) (j # js) = [] then g k
        else Some ((case g k of None \<Rightarrow> [] | Some cell \<Rightarrow> cell)
                   @ filter (\<lambda>i. keyOf c ps i = k) (j # js)))"
    by (simp add: insertCell_apply)
  finally show ?case .
qed

lemma buildGrid_cell:
  "(case buildGrid c ps k of None \<Rightarrow> [] | Some cell \<Rightarrow> cell)
     = filter (\<lambda>i. keyOf c ps i = k) [0..<length ps]"
  by (simp add: buildGrid_def fold_insertCell)

subsection \<open>The neighbourhood of a cell\<close>

lemma offsets_eq:
  "offsets = [(- 1, - 1, - 1), (- 1, - 1, 0), (- 1, - 1, 1), (- 1, 0, - 1), (- 1, 0, 0), (- 1, 0, 1),
              (- 1, 1, - 1), (- 1, 1, 0), (- 1, 1, 1),
              (0, - 1, - 1), (0, - 1, 0), (0, - 1, 1), (0, 0, - 1), (0, 0, 0), (0, 0, 1),
              (0, 1, - 1), (0, 1, 0), (0, 1, 1),
              (1, - 1, - 1), (1, - 1, 0), (1, - 1, 1), (1, 0, - 1), (1, 0, 0), (1, 0, 1),
              (1, 1, - 1), (1, 1, 0), (1, 1, 1)]"
  by (simp add: offsets_def)

lemma distinct_offsets: "distinct offsets"
  unfolding offsets_eq by simp

lemma set_triples:
  "(a, b, c) \<in> set (concat (map (\<lambda>dx. concat (map (\<lambda>dy. map (\<lambda>dz. (dx, dy, dz)) L) L)) L))
     \<longleftrightarrow> a \<in> set L \<and> b \<in> set L \<and> c \<in> set L"
  by auto

lemma set_offsets:
  "(a, b, c) \<in> set offsets \<longleftrightarrow> a \<in> set [- 1, 0, 1] \<and> b \<in> set [- 1, 0, 1] \<and> c \<in> set [- 1, 0, 1]"
  unfolding offsets_def by (rule set_triples)

lemma shiftKey_inj: "shiftKey k d = shiftKey k d' \<Longrightarrow> d = d'"
  by (cases d, cases d') (simp add: shiftKey_def)

lemma floor_neighbour:
  assumes "0 < (c::real)" and "\<bar>x - p\<bar> < c"
  shows "\<lfloor>x / c\<rfloor> - \<lfloor>p / c\<rfloor> \<in> set [- 1, 0, 1]"
proof -
  have "\<bar>(x - p) / c\<bar> < 1"
    using assms by (simp add: abs_divide)
  then have d: "\<bar>x / c - p / c\<bar> < 1"
    by (simp add: diff_divide_distrib)
  have f: "of_int \<lfloor>x / c\<rfloor> \<le> x / c" "x / c < of_int \<lfloor>x / c\<rfloor> + 1"
    "of_int \<lfloor>p / c\<rfloor> \<le> p / c" "p / c < of_int \<lfloor>p / c\<rfloor> + 1"
    by linarith+
  have "(of_int \<lfloor>x / c\<rfloor> :: real) - of_int \<lfloor>p / c\<rfloor> < 2"
    using d f by linarith
  then have u: "\<lfloor>x / c\<rfloor> - \<lfloor>p / c\<rfloor> < 2"
    by linarith
  have "- 2 < (of_int \<lfloor>x / c\<rfloor> :: real) - of_int \<lfloor>p / c\<rfloor>"
    using d f by linarith
  then have l: "- 2 < \<lfloor>x / c\<rfloor> - \<lfloor>p / c\<rfloor>"
    by linarith
  from u l show ?thesis by auto
qed

lemma component_bound:
  assumes "0 < (c::real)" and "x * x + y * y + z * z < c * c"
  shows "\<bar>x\<bar> < c"
proof (rule ccontr)
  assume "\<not> \<bar>x\<bar> < c"
  then have "\<bar>c\<bar> \<le> \<bar>x\<bar>" using assms(1) by simp
  then have "c\<^sup>2 \<le> x\<^sup>2" by (simp only: abs_le_square_iff)
  then have "c * c \<le> x * x" by (simp add: power2_eq_square)
  moreover have "0 \<le> y * y" "0 \<le> z * z" by simp_all
  ultimately show False using assms(2) by linarith
qed

lemma near_in_neighbourhood:
  assumes "0 < c" and "distanceToSquared a pos < c * c"
  shows "\<exists>d\<in>set offsets. getCellKey c a = shiftKey (getCellKey c pos) d"
proof -
  let ?dx = "vx a - vx pos" and ?dy = "vy a - vy pos" and ?dz = "vz a - vz pos"
  have s: "?dx * ?dx + ?dy * ?dy + ?dz * ?dz < c * c"
    using assms(2) by (simp add: distanceToSquared_def Let_def)
  have b1: "\<bar>?dx\<bar> < c"
    by (rule component_bound [OF assms(1) s])
  have b2: "\<bar>?dy\<bar> < c"
    using component_bound [OF assms(1), of ?dy ?dx ?dz] s by (simp add: add.commute)
  have b3: "\<bar>?dz\<bar> < c"
    using component_bound [OF assms(1), of ?dz ?dx ?dy] s by (simp add: add.commute add.left_commute)
  let ?d = "(\<lfloor>vx a / c\<rfloor> - \<lfloor>vx pos / c\<rfloor>, \<lfloor>vy a / c\<rfloor> - \<lfloor>vy pos / c\<rfloor>,
             \<lfloor>vz a / c\<rfloor> - \<lfloor>vz pos / c\<rfloor>)"
  have "?d \<in> set offsets"
    unfolding set_offsets
    using floor_neighbour [OF assms(1) b1] floor_neighbour [OF assms(1) b2]
      floor_neighbour [OF assms(1) b3] by blast
  moreover have "getCellKey c a = shiftKey (getCellKey c pos) ?d"
    by (simp add: getCellKey_def shiftKey_def)
  ultimately show ?thesis by blast
qed

subsection \<open>The push loop visits each near particle once\<close>

lemma fold_cells:
  "fold (\<lambda>d qs. case g (h d) of None \<Rightarrow> qs | Some cell \<Rightarrow> fold G cell qs) ds qs
     = fold G (concat (map (\<lambda>d. cellOf g (h d)) ds)) qs"
  by (induction ds arbitrary: qs) (simp_all add: cellOf_def split: option.split)

lemma cellOf_buildGrid:
  "cellOf (buildGrid c ps) k = filter (\<lambda>i. keyOf c ps i = k) [0..<length ps]"
  using buildGrid_cell [of c ps k] by (simp add: cellOf_def)

lemma visited_set:
  "set (concat (map (\<lambda>d. cellOf (buildGrid c ps) (shiftKey k d)) ds))
     = {i. i < length ps \<and> (\<exists>d\<in>set ds. keyOf c ps i = shiftKey k d)}"
  by (auto simp add: cellOf_buildGrid)

lemma visited_distinct:
  assumes "distinct ds"
  shows "distinct (concat (map (\<lambda>d. cellOf (buildGrid c ps) (shiftKey k d)) ds))"
  using assms
proof (induction ds)
  case Nil
  show ?case by simp
next
  case (Cons d ds)
  have "set (cellOf (buildGrid c ps) (shiftKey k d))
          \<inter> set (concat (map (\<lambda>d. cellOf (buildGrid c ps) (shiftKey k d)) ds)) = {}"
  proof (rule ccontr)
    assume "\<not> ?thesis"
    then obtain i where i1: "i \<in> set (cellOf (buildGrid c ps) (shiftKey k d))"
      and i2: "i \<in> set (concat (map (\<lambda>d. cellOf (buildGrid c ps) (shiftKey k d)) ds))"
      by blast
    from i1 have "keyOf c ps i = shiftKey k d"
      by (simp add: cellOf_buildGrid)
    moreover from i2 obtain d' where "d' \<in> set ds" and "keyOf c ps i = shiftKey k d'"
      unfolding visited_set by blast
    ultimately have "d = d'"
      using shiftKey_inj by metis
    with \<open>d' \<in> set ds\<close> Cons.prems show False by simp
  qed
  moreover have "distinct (cellOf (buildGrid c ps) (shiftKey k d))"
    by (simp add: cellOf_buildGrid)
  ultimately show ?case
    using Cons by simp
qed

lemma pushParticle_far:
  assumes "\<not> distanceToSquared (currentPosition p) pos < r * r"
  shows "pushParticle r st pos p = p"
  using assms by (simp add: pushParticle_def Let_def)

lemma applyPush_nth:
  assumes "0 < r" and "i < length ps"
  shows "applyPush r st pos ps ! i = pushParticle r st pos (ps ! i)"
proof -
  let ?k = "getCellKey r pos"
  let ?vis = "concat (map (\<lambda>d. cellOf (buildGrid r ps) (shiftKey ?k d)) offsets)"
  have ap: "applyPush r st pos ps
              = fold (\<lambda>i rs. rs[i := pushParticle r st pos (rs ! i)]) ?vis ps"
    unfolding applyPush_def Let_def by (rule fold_cells)
  have d: "distinct ?vis"
    by (rule visited_distinct [OF distinct_offsets])
  have n: "applyPush r st pos ps ! i
             = (if i \<in> set ?vis then pushParticle r st pos (ps ! i) else ps ! i)"
    unfolding ap
    using nth_fold_upd [OF d assms(2), of "\<lambda>_. pushParticle r st pos"] by simp
  show ?thesis
  proof (cases "i \<in> set ?vis")
    case True
    then show ?thesis using n by simp
  next
    case False
    then have "\<not> (\<exists>d\<in>set offsets. keyOf r ps i = shiftKey ?k d)"
      unfolding visited_set using assms(2) by simp
    then have "\<not> distanceToSquared (currentPosition (ps ! i)) pos < r * r"
      using near_in_neighbourhood [OF assms(1), of "currentPosition (ps ! i)" pos]
      by (auto simp add: keyOf_def)
    from pushParticle_far [OF this] False n show ?thesis by simp
  qed
qed

lemma applyPush_map:
  assumes "0 < r"
  shows "applyPush r st pos ps = map (pushParticle r st pos) ps"
  by (rule nth_equalityI) (simp_all add: length_applyPush applyPush_nth [OF assms])

lemma mkv_eta [simp]: "mkv (vx v) (vy v) (vz v) = v"
  by (simp add: mkv_def)

lemma vadd_zero [simp]: "vadd v (mkv 0 0 0) = v"
  by (simp add: vadd_def)

lemma integrate_pushParticle:
  "integrate k dmp (pushParticle r st pos p)
     = dampedUpdate k dmp (pushForce True r st pos p) p" if "0 < r"
proof -
  have c: "vadd (vadd (vadd v a) b) c = vadd (vadd (vadd v b) a) c" for v a b c
    by (simp add: vadd_def add.commute add.left_commute)
  show ?thesis
    using that
    by (simp add: integrate_def pushParticle_def pushForce_def dampedUpdate_def Let_def)
       (simp add: vadd_def multiplyScalar_def subVectors_def algebra_simps)
qed

lemma integrate_plain:
  "integrate k dmp p = dampedUpdate k dmp (mkv 0 0 0) p"
  by (simp add: integrate_def dampedUpdate_def Let_def)

lemma pushForce_disabled:
  "\<not> (enabled \<and> 0 < r) \<Longrightarrow> pushForce enabled r st pos p = mkv 0 0 0"
  by (auto simp add: pushForce_def Let_def)

lemma integrate_pushSimple:
  "integrate k dmp (pushSimple pos p) = dampedUpdate k dmp (pushForceSimple pos p) p"
  by (simp add: integrate_def pushSimple_def pushForceSimple_def dampedUpdate_def Let_def)
     (simp add: vadd_def multiplyScalar_def subVectors_def algebra_simps)

lemma physicsTick_particles:
  assumes "mouseInteractionState s = none"
  shows "particles (physicsTick f s)
     = (let s3 = (if isMorphing (morphState s) then morphTick (now f) s else s);
            fp = animatedForce s;
            qs = map (\<lambda>p. dampedUpdate (returnStrength fp) (damping fp)
                            (pushForce (enablePushForce (targetProps f)) (pushRadius fp)
                               (pushStrength fp) (pointer f) p) p)
                   (particles s3)
        in if enableCollisions (targetProps f) then handleCollisions qs (particleSize fp) else qs)"
proof -
  let ?s3 = "if isMorphing (morphState s) then morphTick (now f) s else s"
  let ?fp = "animatedForce s"
  have fp: "animatedForce ?s3 = ?fp"
    by (simp add: morphTick_def Let_def)
  have ms: "mouseInteractionState ?s3 = none"
    using assms by (simp add: morphTick_def Let_def)
  let ?en = "enablePushForce (targetProps f)"
  have ps5: "map (integrate (returnStrength ?fp) (damping ?fp))
               (if ?en \<and> mouseInteractionState ?s3 = none \<and> pushRadius ?fp > 0
                then applyPush (pushRadius ?fp) (pushStrength ?fp) (pointer f) (particles ?s3)
                else particles ?s3)
             = map (\<lambda>p. dampedUpdate (returnStrength ?fp) (damping ?fp)
                            (pushForce ?en (pushRadius ?fp) (pushStrength ?fp) (pointer f) p) p)
                 (particles ?s3)"
  proof (cases "?en \<and> pushRadius ?fp > 0")
    case True
    then show ?thesis
      using ms by (simp add: applyPush_map integrate_pushParticle comp_def)
  next
    case False
    then have "pushForce ?en (pushRadius ?fp) (pushStrength ?fp) (pointer f) p = mkv 0 0 0" for p
      by (simp add: pushForce_disabled)
    with False show ?thesis
      by (auto simp add: integrate_plain)
  qed
  have "particles (physicsTick f s)
          = (let ps5 = map (integrate (returnStrength ?fp) (damping ?fp))
               (if ?en \<and> mouseInteractionState ?s3 = none \<and> pushRadius ?fp > 0
                then applyPush (pushRadius ?fp) (pushStrength ?fp) (pointer f) (particles ?s3)
                else particles ?s3)
             in if enableCollisions (targetProps f) then handleCollisions ps5 (particleSize ?fp)
                else ps5)"
    unfolding physicsTick_def Let_def fp by simp
  then show ?thesis
    unfolding Let_def ps5 .
qed

section \<open>The collision pass\<close>

subsection \<open>The pass is a sequence of visits\<close>

text \<open>
  For each slot \<open>i\<close> in turn, \<^verbatim>\<open>handleCollisions\<close> visits the pairs \<open>(i, j)\<close> for the slots \<open>j\<close>
  that the grid (built once, before the pass) holds around the cell of the current
  position of the particle in slot \<open>i\<close>.
\<close>

lemma handleCollisions_visits:
  assumes "2 \<le> length ps" and "0 < pSize"
  shows "handleCollisions ps pSize
           = fold (\<lambda>i qs. fold (\<lambda>j. visitPair (pSize * 2) i j)
                             (visited (pSize * 2) ps (keyOf (pSize * 2) qs i)) qs)
               [0..<length ps] ps"
proof -
  have "handleCollisions ps pSize
          = fold (\<lambda>i qs. fold (\<lambda>d rs. case buildGrid (pSize * 2) ps
                                          (shiftKey (getCellKey (pSize * 2) (currentPosition (qs ! i))) d) of
                                  None \<Rightarrow> rs
                                | Some cell \<Rightarrow> fold (\<lambda>j ts. visitPair (pSize * 2) i j ts) cell rs)
                          offsets qs)
              [0..<length ps] ps"
    using assms by (simp add: handleCollisions_def Let_def)
  then show ?thesis
    unfolding fold_cells visited_def keyOf_def .
qed

lemma visited_facts:
  "distinct (visited c ps k)"
  "set (visited c ps k) = {i. i < length ps \<and> (\<exists>d\<in>set offsets. keyOf c ps i = shiftKey k d)}"
  unfolding visited_def
  by (rule visited_distinct [OF distinct_offsets]) (rule visited_set)

lemma visitPair_self: "visitPair c i i ps = ps"
  by (simp add: visitPair_def)

lemma fold_visit_lower:
  assumes "\<forall>j\<in>set js. pid (qs ! j) \<le> pid (qs ! i)"
  shows "fold (\<lambda>j. visitPair c i j) js qs = qs"
  using assms by (induction js) (simp_all add: visitPair_def)

lemma fold_visit_one:
  assumes "distinct js" and "\<forall>k\<in>set js. k = i \<or> k = j"
  shows "fold (\<lambda>k. visitPair c i k) js qs = (if j \<in> set js then visitPair c i j qs else qs)"
  using assms
proof (induction js arbitrary: qs)
  case Nil
  show ?case by simp
next
  case (Cons k js)
  show ?case
  proof (cases "k = j")
    case True
    with Cons.prems have "\<forall>l\<in>set js. l = i" by auto
    then have "\<forall>l\<in>set js. pid (visitPair c i j qs ! l) \<le> pid (visitPair c i j qs ! i)"
      by auto
    from fold_visit_lower [OF this] True show ?thesis by simp
  next
    case False
    with Cons.prems have ki: "k = i" by simp
    have "fold (\<lambda>k. visitPair c i k) js qs = (if j \<in> set js then visitPair c i j qs else qs)"
      using Cons.IH Cons.prems by simp
    then show ?thesis
      using ki False by (simp add: visitPair_self)
  qed
qed

lemma distanceToSquared_commute: "distanceToSquared a b = distanceToSquared b a"
  by (simp add: distanceToSquared_def Let_def power2_eq_square algebra_simps)

lemma pid_visitPair:
  assumes "k < length ps"
  shows "pid (visitPair c i j ps ! k) = pid (ps ! k)"
  using sameHome_visitPair [of ps c i j] assms
  by (simp add: list_all2_conv_all_nth sameHome_def)

lemma fold_visits_pairs:
  assumes "\<And>qs i. set (V qs i) \<subseteq> {j. j < n}" and "set ks \<subseteq> {i. i < n}"
  shows "\<exists>pairs. (\<forall>(k, l)\<in>set pairs. k < n \<and> l < n)
           \<and> fold (\<lambda>i qs. fold (\<lambda>j. visitPair c i j) (V qs i) qs) ks qs0
               = fold (\<lambda>(k, l). visitPair c k l) pairs qs0"
  using assms(2)
proof (induction ks arbitrary: qs0)
  case Nil
  have "(\<forall>(k, l)\<in>set []. k < n \<and> l < n)
          \<and> fold (\<lambda>i qs. fold (\<lambda>j. visitPair c i j) (V qs i) qs) [] qs0
               = fold (\<lambda>(k, l). visitPair c k l) [] qs0"
    by simp
  then show ?case by blast
next
  case (Cons i ks)
  let ?js = "V qs0 i"
  let ?qs1 = "fold (\<lambda>j. visitPair c i j) ?js qs0"
  have q1: "?qs1 = fold (\<lambda>(k, l). visitPair c k l) (map (Pair i) ?js) qs0"
    by (simp add: fold_map comp_def)
  from Cons.prems have ks: "set ks \<subseteq> {i. i < n}" and i: "i < n" by simp_all
  from Cons.IH [OF ks, of ?qs1] obtain pairs where
    b: "\<forall>(k, l)\<in>set pairs. k < n \<and> l < n"
    and e: "fold (\<lambda>i qs. fold (\<lambda>j. visitPair c i j) (V qs i) qs) ks ?qs1
              = fold (\<lambda>(k, l). visitPair c k l) pairs ?qs1"
    by blast
  have b2: "\<forall>(k, l)\<in>set (map (Pair i) ?js @ pairs). k < n \<and> l < n"
    using b i assms(1) [of qs0 i] by auto
  have "fold (\<lambda>i qs. fold (\<lambda>j. visitPair c i j) (V qs i) qs) (i # ks) qs0
          = fold (\<lambda>(k, l). visitPair c k l) (map (Pair i) ?js @ pairs) qs0"
    using e q1 by simp
  with b2 show ?case by blast
qed

lemma handleCollisions_pairs:
  "\<exists>pairs. (\<forall>(k, l)\<in>set pairs. k < length ps \<and> l < length ps)
     \<and> handleCollisions ps pSize = fold (\<lambda>(k, l). visitPair (pSize * 2) k l) pairs ps"
proof (cases "2 \<le> length ps \<and> 0 < pSize")
  case True
  have v: "set (visited (pSize * 2) ps (keyOf (pSize * 2) qs i)) \<subseteq> {j. j < length ps}" for qs i
    unfolding visited_facts by auto
  have "set [0..<length ps] \<subseteq> {i. i < length ps}" by auto
  from fold_visits_pairs [of "\<lambda>qs i. visited (pSize * 2) ps (keyOf (pSize * 2) qs i)",
      OF v this, of "pSize * 2" ps]
  show ?thesis
    using True by (simp add: handleCollisions_visits)
next
  case False
  then have "(\<forall>(k, l)\<in>set []. k < length ps \<and> l < length ps)
     \<and> handleCollisions ps pSize = fold (\<lambda>(k, l). visitPair (pSize * 2) k l) [] ps"
    by (auto simp add: handleCollisions_def)
  then show ?thesis by blast
qed

subsection \<open>An array of two particles\<close>

text \<open>
  With two particles the pass is the one visit of the pair, first slot the one with the
  smaller id: a pair in range lies in neighbouring cells, is visited once from the slot of
  the smaller id, and every other visit is skipped by the test on the ids.
\<close>

lemma handleCollisions_pair:
  assumes "0 < pSize" and "length ps = 2" and "i < length ps" and "j < length ps"
    and "pid (ps ! i) < pid (ps ! j)"
  shows "handleCollisions ps pSize = visitPair (pSize * 2) i j ps"
proof -
  let ?c = "pSize * 2"
  let ?qs = "visitPair ?c i j ps"
  have c: "0 < ?c" using assms(1) by simp
  have ne: "i \<noteq> j" using assms(5) by auto
  have up: "[0..<length ps] = [0, 1]"
    unfolding assms(2) by (simp add: upt_rec numeral_2_eq_2)
  have sub: "\<forall>k\<in>set (visited ?c ps key). k = i \<or> k = j" for key
    unfolding visited_facts using assms(2,3,4) ne by auto
  have visit: "fold (\<lambda>k. visitPair ?c i k) (visited ?c ps (keyOf ?c ps i)) ps = ?qs"
  proof (cases "j \<in> set (visited ?c ps (keyOf ?c ps i))")
    case True
    then show ?thesis
      using fold_visit_one [OF visited_facts(1) sub] by simp
  next
    case False
    then have "\<not> (\<exists>d\<in>set offsets. keyOf ?c ps j = shiftKey (keyOf ?c ps i) d)"
      unfolding visited_facts using assms(4) by simp
    then have "\<not> distanceToSquared (currentPosition (ps ! j)) (currentPosition (ps ! i)) < ?c * ?c"
      using near_in_neighbourhood [OF c, of "currentPosition (ps ! j)" "currentPosition (ps ! i)"]
      by (auto simp add: keyOf_def)
    then have "\<not> (0 < distanceToSquared (currentPosition (ps ! i)) (currentPosition (ps ! j))
             \<and> distanceToSquared (currentPosition (ps ! i)) (currentPosition (ps ! j)) < ?c * ?c)"
      by (simp add: distanceToSquared_commute)
    from visitPair_skip [OF this] have "?qs = ps" .
    with False show ?thesis
      using fold_visit_one [OF visited_facts(1) sub] by simp
  qed
  have low: "fold (\<lambda>k. visitPair ?c j k) (visited ?c ps (keyOf ?c rs j)) rs = rs"
    if "pid (rs ! i) < pid (rs ! j)" for rs
  proof (rule fold_visit_lower)
    show "\<forall>k\<in>set (visited ?c ps (keyOf ?c rs j)). pid (rs ! k) \<le> pid (rs ! j)"
      using sub [of "keyOf ?c rs j"] that by auto
  qed
  have pids: "pid (?qs ! i) < pid (?qs ! j)"
    using assms(3,4,5) by (simp add: pid_visitPair)
  have hc: "handleCollisions ps pSize
          = fold (\<lambda>i qs. fold (\<lambda>j. visitPair ?c i j) (visited ?c ps (keyOf ?c qs i)) qs) [0, 1] ps"
    using handleCollisions_visits [of ps pSize] assms(1,2) unfolding up by simp
  from assms(2,3,4) ne have "(i = 0 \<and> j = 1) \<or> (i = 1 \<and> j = 0)"
    by auto
  then show ?thesis
  proof
    assume ij: "i = 0 \<and> j = 1"
    show ?thesis
      unfolding hc using visit low [OF pids] ij by simp
  next
    assume ij: "i = 1 \<and> j = 0"
    show ?thesis
      unfolding hc using visit low [OF assms(5)] ij by simp
  qed
qed

lemma closePair_pass: "handleCollisions closePair (5 / 4) = closePairApart"
proof -
  have "handleCollisions closePair (5 / 4) = visitPair (5 / 4 * 2) 0 1 closePair"
    by (rule handleCollisions_pair) (simp_all add: closePair_def)
  also have "\<dots> = closePairApart"
    by (simp add: visitPair_def resolvePair_def Let_def closePair_def closePairApart_def
      distanceToSquared_def vadd_def subVectors_def multiplyScalar_def vdot_def
      restingAt_def seedParticle_def mkv_def)
  finally show ?thesis .
qed

subsection \<open>A chain of three particles\<close>

lemma dist_axis: "distanceTo (mkv a 0 0) (mkv b 0 0) = \<bar>a - b\<bar>"
  by (simp add: distanceTo_def distanceToSquared_def Let_def)

lemma chain3_length: "[0..<length chain3] = [0, 1, 2]"
  by (simp add: chain3_def upt_rec)

lemma chain3_keys:
  "keyOf (5 / 2) chain3 0 = (0, 0, 0)" "keyOf (5 / 2) chain3 1 = (0, 0, 0)"
  "keyOf (5 / 2) chain3 2 = (1, 0, 0)" "keyOf (5 / 2) chain3 (Suc 0) = (0, 0, 0)"
  by (simp_all add: keyOf_def getCellKey_def chain3_def)

lemma chain3_cell:
  "cellOf (buildGrid (5 / 2) chain3) k
     = (if k = (0, 0, 0) then [0, 1] else if k = (1, 0, 0) then [2] else [])"
  unfolding cellOf_buildGrid chain3_length
  by (simp add: chain3_keys)

lemma chain3_visited:
  "visited (5 / 2) chain3 (0, 0, 0) = [0, 1, 2]" "visited (5 / 2) chain3 (1, 0, 0) = [0, 1, 2]"
  unfolding visited_def offsets_eq chain3_cell
  by (simp_all add: shiftKey_def)

lemma sqrt_chain: "sqrt (144 / 25) = 12 / 5" "sqrt (9 / 400) = 3 / 20"
  by (rule real_sqrt_unique; simp add: power2_eq_square)+

lemma chain3_visit01: "visitPair (5 / 2) 0 1 chain3 = chain3Visited"
  by (simp add: visitPair_def resolvePair_def Let_def chain3_def chain3Visited_def
      distanceToSquared_def vadd_def subVectors_def multiplyScalar_def vdot_def sqrt_chain
      restingAt_def seedParticle_def mkv_def power2_eq_square)

lemma chain3_visit02: "visitPair (5 / 2) 0 2 chain3Visited = chain3Visited"
  by (rule visitPair_skip)
     (simp add: chain3Visited_def distanceToSquared_def power2_eq_square)

lemma chain3_visit12: "visitPair (5 / 2) 1 2 chain3Visited = chain3Final"
  by (simp add: visitPair_def resolvePair_def Let_def chain3Final_def chain3Visited_def
      distanceToSquared_def vadd_def subVectors_def multiplyScalar_def vdot_def sqrt_chain
      restingAt_def seedParticle_def mkv_def power2_eq_square)

lemma chain3_keys_visited: "keyOf (5 / 2) chain3Visited 1 = (0, 0, 0)"
  by (simp add: keyOf_def getCellKey_def chain3Visited_def)

lemma chain3_keys_final: "keyOf (5 / 2) chain3Final 2 = (1, 0, 0)"
  by (simp add: keyOf_def getCellKey_def chain3Final_def)

lemma chain3_pass: "handleCollisions chain3 (5 / 4) = chain3Final"
proof -
  have c: "5 / 4 * 2 = (5 / 2 :: real)" by simp
  have s0: "fold (\<lambda>j. visitPair (5 / 2) 0 j) (visited (5 / 2) chain3 (keyOf (5 / 2) chain3 0)) chain3
              = chain3Visited"
    unfolding chain3_keys chain3_visited
    by (simp only: fold_simps comp_apply id_apply visitPair_self chain3_visit01 chain3_visit02)
  have low1: "visitPair (5 / 2) 1 0 chain3Visited = chain3Visited"
    by (simp add: visitPair_def chain3Visited_def)
  have s1: "fold (\<lambda>j. visitPair (5 / 2) 1 j) (visited (5 / 2) chain3 (keyOf (5 / 2) chain3Visited 1))
              chain3Visited = chain3Final"
    unfolding chain3_keys_visited chain3_visited
    by (simp only: fold_simps comp_apply id_apply visitPair_self low1 chain3_visit12)
  have low2: "visitPair (5 / 2) 2 0 chain3Final = chain3Final"
      "visitPair (5 / 2) 2 1 chain3Final = chain3Final"
    by (simp_all add: visitPair_def chain3Final_def)
  have s2: "fold (\<lambda>j. visitPair (5 / 2) 2 j) (visited (5 / 2) chain3 (keyOf (5 / 2) chain3Final 2))
              chain3Final = chain3Final"
    unfolding chain3_keys_final chain3_visited
    by (simp only: fold_simps comp_apply id_apply visitPair_self low2)
  have "handleCollisions chain3 (5 / 4)
          = fold (\<lambda>i qs. fold (\<lambda>j. visitPair (5 / 2) i j)
                             (visited (5 / 2) chain3 (keyOf (5 / 2) qs i)) qs) [0, 1, 2] chain3"
    using handleCollisions_visits [of chain3 "5 / 4"]
    unfolding c chain3_length by (simp add: chain3_def)
  also have "\<dots> = chain3Final"
    by (simp only: fold_simps comp_apply id_apply s0 s1 s2)
  finally show ?thesis .
qed

lemma chain3_facts:
  "pid (chain3 ! 0) = 0" "pid (chain3 ! 1) = 1" "pid (chain3 ! 2) = 2"
  "currentPosition (chain3 ! 0) = mkv 0 0 0" "currentPosition (chain3 ! 1) = mkv (12 / 5) 0 0"
  "currentPosition (chain3 ! 2) = mkv (13 / 5) 0 0"
  by (simp_all add: chain3_def)

lemma chain3Final_facts:
  "currentPosition (chain3Final ! 0) = mkv (- 1 / 20) 0 0"
  "currentPosition (chain3Final ! 1) = mkv (51 / 40) 0 0"
  "currentPosition (chain3Final ! 2) = mkv (151 / 40) 0 0"
  by (simp_all add: chain3Final_def)

subsection \<open>The positional correction\<close>

text \<open>
  C10 (as the code has it). In exact arithmetic, when \<^verbatim>\<open>handleCollisions\<close> visits a pair of
  slots with \<open>p1.id < p2.id\<close> whose particles are, at that moment, at a distance \<open>d\<close> with
  \<open>0 < d < 2 * particleSize\<close>, each particle is moved by \<open>(2 * particleSize - d) / 2\<close> along
  the unit normal from the second to the first, in opposite directions, and right after
  the visit the pair is at distance exactly \<open>2 * particleSize\<close>. On an array of two
  particles the pass of \<^verbatim>\<open>handleCollisions\<close> is this one visit, so the pair ends the pass
  at that distance.
\<close>

theorem collision_exact_separation:
  assumes "0 < pSize" and "i < length ps" and "j < length ps" and "pid (ps ! i) < pid (ps ! j)"
    and "0 < distanceTo (currentPosition (ps ! i)) (currentPosition (ps ! j))"
    and "distanceTo (currentPosition (ps ! i)) (currentPosition (ps ! j)) < 2 * pSize"
  shows "let a = currentPosition (ps ! i); b = currentPosition (ps ! j);
             d = distanceTo a b;
             normal = multiplyScalar (subVectors a b) (1 / d);
             ps' = visitPair (pSize * 2) i j ps
         in (vlength normal = 1
          \<and> currentPosition (ps' ! i) = vadd a (multiplyScalar normal ((2 * pSize - d) / 2))
          \<and> currentPosition (ps' ! j) = subVectors b (multiplyScalar normal ((2 * pSize - d) / 2))
          \<and> distanceTo (currentPosition (ps' ! i)) (currentPosition (ps' ! j)) = 2 * pSize)
          \<and> (length ps = 2 \<longrightarrow> handleCollisions ps pSize = ps')"
proof -
  note a = visitPair_exact [OF assms, unfolded Let_def]
  have b: "length ps = 2 \<longrightarrow> handleCollisions ps pSize = visitPair (pSize * 2) i j ps"
    using handleCollisions_pair [OF assms(1) _ assms(2,3,4)] by blast
  show ?thesis
    unfolding Let_def by (rule conjI [OF a b])
qed

text \<open>
  With three or more particles a later visit of the same pass can move a corrected
  particle again. In the chain at 0, 2.4 and 2.6 with \<open>particleSize = 1.25\<close>, the visit of
  the slots 0 and 1 (distance 2.4) corrects them to distance 2.5; the visit of the slots 1
  and 2 (then at distance 0.15) moves particle 1 back, and the pass ends with the
  particles of the slots 0 and 1 at distance 1.325.
\<close>

theorem collision_exact_separation_counterexample:
  "pid (chain3 ! 0) < pid (chain3 ! 1)
   \<and> distanceTo (currentPosition (chain3 ! 0)) (currentPosition (chain3 ! 1)) = 12 / 5
   \<and> (0::real) < 12 / 5 \<and> (12 / 5 :: real) < 2 * (5 / 4)
   \<and> distanceTo (currentPosition (handleCollisions chain3 (5 / 4) ! 0))
        (currentPosition (handleCollisions chain3 (5 / 4) ! 1)) = 53 / 40
   \<and> (53 / 40 :: real) \<noteq> 2 * (5 / 4)"
  unfolding chain3_pass chain3_facts chain3Final_facts dist_axis by simp

theorem collision_exact_separation_witness:
  "0 < (5 / 4 :: real) \<and> (0::nat) < length closePair \<and> (1::nat) < length closePair
   \<and> pid (closePair ! 0) < pid (closePair ! 1)
   \<and> 0 < distanceTo (currentPosition (closePair ! 0)) (currentPosition (closePair ! 1))
   \<and> distanceTo (currentPosition (closePair ! 0)) (currentPosition (closePair ! 1)) < 2 * (5 / 4)
   \<and> length closePair = 2
   \<and> currentPosition (handleCollisions closePair (5 / 4) ! 0) = mkv (- 3 / 4) 0 0
   \<and> currentPosition (handleCollisions closePair (5 / 4) ! 1) = mkv (7 / 4) 0 0
   \<and> distanceTo (currentPosition (handleCollisions closePair (5 / 4) ! 0))
        (currentPosition (handleCollisions closePair (5 / 4) ! 1)) = 5 / 2"
proof -
  have h1: "0 < (5 / 4 :: real)" by simp
  have h2: "(0::nat) < length closePair" and h3: "(1::nat) < length closePair"
    by (simp_all add: closePair_facts)
  have h4: "pid (closePair ! 0) < pid (closePair ! 1)"
    unfolding closePair_facts by simp
  have h5: "0 < distanceTo (currentPosition (closePair ! 0)) (currentPosition (closePair ! 1))"
    unfolding closePair_facts dist_close by simp
  have h6: "distanceTo (currentPosition (closePair ! 0)) (currentPosition (closePair ! 1)) < 2 * (5 / 4)"
    unfolding closePair_facts dist_close by simp
  have l: "length closePair = 2" by (rule closePair_facts)
  note w = collision_exact_separation [OF h1 h2 h3 h4 h5 h6, unfolded Let_def closePair_facts dist_close]
  have hc: "handleCollisions closePair (5 / 4) = visitPair (5 / 4 * 2) 0 1 closePair"
    using w [THEN conjunct2] by simp
  have p1: "currentPosition (handleCollisions closePair (5 / 4) ! 0) = mkv (- 3 / 4) 0 0"
    unfolding hc using w [THEN conjunct1, THEN conjunct2, THEN conjunct1]
    by (simp add: vadd_def subVectors_def multiplyScalar_def mkv_def)
  have p2: "currentPosition (handleCollisions closePair (5 / 4) ! 1) = mkv (7 / 4) 0 0"
    unfolding hc using w [THEN conjunct1, THEN conjunct2, THEN conjunct2, THEN conjunct1]
    by (simp add: vadd_def subVectors_def multiplyScalar_def mkv_def)
  have d: "distanceTo (currentPosition (handleCollisions closePair (5 / 4) ! 0))
        (currentPosition (handleCollisions closePair (5 / 4) ! 1)) = 5 / 2"
    unfolding hc using w [THEN conjunct1, THEN conjunct2, THEN conjunct2, THEN conjunct2] by simp
  from p1 p2 d h1 h2 h3 h4 h5 h6 l show ?thesis by blast
qed

text \<open>
  C7 (as the code has it). One visit of a pair of slots by \<^verbatim>\<open>handleCollisions\<close>, with
  \<open>p1.id < p2.id\<close>: if the squared distance at the moment of the visit lies strictly between
  0 and \<open>(2 * particleSize)\<^sup>2\<close>, both particles are moved along the connecting normal by half
  the (positive) overlap each, away from each other, and their distance right after the
  visit is at least their distance right before it; if the squared distance is 0 or at
  least \<open>(2 * particleSize)\<^sup>2\<close>, the visit leaves the particle array as it was. On an array
  of two particles the pass of \<^verbatim>\<open>handleCollisions\<close> is this one visit, and on every array the
  pass is a sequence of visits of pairs of slots.
\<close>

theorem collision_moves_apart:
  assumes "0 < pSize" and "i < length ps" and "j < length ps" and "pid (ps ! i) < pid (ps ! j)"
  shows "let a = currentPosition (ps ! i); b = currentPosition (ps ! j);
             distanceSq = distanceToSquared a b;
             normal = multiplyScalar (subVectors a b) (1 / sqrt distanceSq);
             overlap = (2 * pSize - sqrt distanceSq) / 2;
             ps' = visitPair (pSize * 2) i j ps
         in (if 0 < distanceSq \<and> distanceSq < (2 * pSize)\<^sup>2
             then 0 < overlap
               \<and> currentPosition (ps' ! i) = vadd a (multiplyScalar normal overlap)
               \<and> currentPosition (ps' ! j) = subVectors b (multiplyScalar normal overlap)
               \<and> distanceTo a b \<le> distanceTo (currentPosition (ps' ! i)) (currentPosition (ps' ! j))
             else ps' = ps)
          \<and> (length ps = 2 \<longrightarrow> handleCollisions ps pSize = ps')
          \<and> (\<exists>pairs. (\<forall>(k, l)\<in>set pairs. k < length ps \<and> l < length ps)
                \<and> handleCollisions ps pSize = fold (\<lambda>(k, l). visitPair (pSize * 2) k l) pairs ps)"
proof -
  note a = visitPair_apart [OF assms, unfolded Let_def]
  have b: "length ps = 2 \<longrightarrow> handleCollisions ps pSize = visitPair (pSize * 2) i j ps"
    using handleCollisions_pair [OF assms(1) _ assms(2,3,4)] by blast
  note c = handleCollisions_pairs [of ps pSize]
  show ?thesis
    unfolding Let_def by (rule conjI [OF a conjI [OF b c]])
qed

text \<open>
  Neither half is a property of the array after the pass. In the chain at 0, 2.4 and 2.6
  with \<open>particleSize = 1.25\<close>, the particles of the slots 0 and 1, in range and corrected,
  end the pass closer to each other than they started (1.325 against 2.4), and the
  particles of the slots 0 and 2, out of range (squared distance 6.76 against 6.25), have
  both moved.
\<close>

theorem collision_moves_apart_counterexample:
  "pid (chain3 ! 0) < pid (chain3 ! 1)
   \<and> 0 < distanceToSquared (currentPosition (chain3 ! 0)) (currentPosition (chain3 ! 1))
   \<and> distanceToSquared (currentPosition (chain3 ! 0)) (currentPosition (chain3 ! 1)) < (2 * (5 / 4))\<^sup>2
   \<and> distanceTo (currentPosition (handleCollisions chain3 (5 / 4) ! 0))
        (currentPosition (handleCollisions chain3 (5 / 4) ! 1))
       < distanceTo (currentPosition (chain3 ! 0)) (currentPosition (chain3 ! 1))
   \<and> pid (chain3 ! 0) < pid (chain3 ! 2)
   \<and> (2 * (5 / 4))\<^sup>2 \<le> distanceToSquared (currentPosition (chain3 ! 0)) (currentPosition (chain3 ! 2))
   \<and> currentPosition (handleCollisions chain3 (5 / 4) ! 0) \<noteq> currentPosition (chain3 ! 0)
   \<and> currentPosition (handleCollisions chain3 (5 / 4) ! 2) \<noteq> currentPosition (chain3 ! 2)"
  unfolding chain3_pass chain3_facts chain3Final_facts dist_axis
  by (simp add: distanceToSquared_def power2_eq_square mkv_def)

theorem collision_moves_apart_witness:
  "0 < (5 / 4 :: real) \<and> (0::nat) < length closePair \<and> (1::nat) < length closePair
   \<and> pid (closePair ! 0) < pid (closePair ! 1) \<and> length closePair = 2
   \<and> distanceTo (currentPosition (closePair ! 0)) (currentPosition (closePair ! 1))
      \<le> distanceTo (currentPosition (handleCollisions closePair (5 / 4) ! 0))
           (currentPosition (handleCollisions closePair (5 / 4) ! 1))
   \<and> handleCollisions closePair (5 / 4) \<noteq> closePair
   \<and> (0::nat) < length farPair \<and> (1::nat) < length farPair
   \<and> pid (farPair ! 0) < pid (farPair ! 1) \<and> length farPair = 2
   \<and> handleCollisions farPair (5 / 4) = farPair"
proof -
  have h1: "0 < (5 / 4 :: real)" by simp
  have h2: "(0::nat) < length closePair" and h3: "(1::nat) < length closePair"
    by (simp_all add: closePair_facts)
  have h4: "pid (closePair ! 0) < pid (closePair ! 1)"
    unfolding closePair_facts by simp
  have l: "length closePair = 2" by (rule closePair_facts)
  have g2: "(0::nat) < length farPair" and g3: "(1::nat) < length farPair"
    by (simp_all add: farPair_facts)
  have g4: "pid (farPair ! 0) < pid (farPair ! 1)"
    unfolding farPair_facts by simp
  have m: "length farPair = 2" by (rule farPair_facts)
  have c1: "0 < distanceToSquared (currentPosition (closePair ! 0)) (currentPosition (closePair ! 1))
           \<and> distanceToSquared (currentPosition (closePair ! 0)) (currentPosition (closePair ! 1))
               < (2 * (5 / 4))\<^sup>2"
    unfolding closePair_facts by (simp add: distanceToSquared_def power2_eq_square)
  have c2: "\<not> (0 < distanceToSquared (currentPosition (farPair ! 0)) (currentPosition (farPair ! 1))
           \<and> distanceToSquared (currentPosition (farPair ! 0)) (currentPosition (farPair ! 1))
               < (2 * (5 / 4))\<^sup>2)"
    unfolding farPair_facts by (simp add: distanceToSquared_def power2_eq_square)
  note w1 = collision_moves_apart [OF h1 h2 h3 h4, unfolded Let_def if_P [OF c1]]
  note w2 = collision_moves_apart [OF h1 g2 g3 g4, unfolded Let_def if_not_P [OF c2]]
  have hc1: "handleCollisions closePair (5 / 4) = visitPair (5 / 4 * 2) 0 1 closePair"
    using w1 [THEN conjunct2, THEN conjunct1] l by blast
  have hc2: "handleCollisions farPair (5 / 4) = visitPair (5 / 4 * 2) 0 1 farPair"
    using w2 [THEN conjunct2, THEN conjunct1] m by blast
  have a: "distanceTo (currentPosition (closePair ! 0)) (currentPosition (closePair ! 1))
      \<le> distanceTo (currentPosition (handleCollisions closePair (5 / 4) ! 0))
           (currentPosition (handleCollisions closePair (5 / 4) ! 1))"
    unfolding hc1 using w1 [THEN conjunct1] by blast
  have p: "currentPosition (handleCollisions closePair (5 / 4) ! 0) = mkv (- (3 / 4)) 0 0"
    unfolding hc1 using w1 [THEN conjunct1, THEN conjunct2, THEN conjunct1]
    unfolding closePair_facts
    by (simp add: distanceToSquared_def vadd_def subVectors_def multiplyScalar_def mkv_def)
  have n: "handleCollisions closePair (5 / 4) \<noteq> closePair"
  proof
    assume "handleCollisions closePair (5 / 4) = closePair"
    with p have "currentPosition (closePair ! 0) = mkv (- (3 / 4)) 0 0" by simp
    then show False
      unfolding closePair_facts by (simp add: mkv_def)
  qed
  have b: "handleCollisions farPair (5 / 4) = farPair"
    unfolding hc2 using w2 [THEN conjunct1] .
  from a n b h1 h2 h3 h4 l g2 g3 g4 m show ?thesis by blast
qed

section \<open>The update rule of a tick\<close>

subsection \<open>Two example ticks\<close>

lemma crowded_eq: "crowded = initialState\<lparr>particles := closePair, instancedMesh := True\<rparr>"
  by (simp add: crowded_def sourceLoaded_def initialState_def closePair_def restingAt_def
      seedParticle_def tint_def mkc_def upt_rec)

lemma crowded_fields:
  "instancedMesh crowded" "particles crowded = closePair" "mouseInteractionState crowded = none"
  "\<not> isMorphing (morphState crowded)" "animatedForce crowded = defaultForce"
  by (simp_all add: crowded_eq initialState_def idleMorph_def)

lemma crowded_props: "propsTick tint farFrame crowded = crowded"
  by (simp add: propsTick_def Let_def farFrame_def defaultProps_def crowded_eq initialState_def
      mlerp_def lerpForce_def defaultForce_def)

lemma dampedUpdate_resting: "dampedUpdate k d (mkv 0 0 0) (restingAt i a) = restingAt i a"
  by (simp add: dampedUpdate_def Let_def restingAt_def seedParticle_def vadd_def subVectors_def
      multiplyScalar_def mkv_def)

lemma crowded_tick: "particles (animate tint farFrame crowded) = closePairApart"
proof -
  have a: "animate tint farFrame crowded = physicsTick farFrame crowded"
    using animate_physics [of crowded tint farFrame]
    by (simp add: crowded_fields closePair_def crowded_props)
  have p: "pushForce True 60 (4 / 5) (mkv 1000 1000 0) (restingAt i (mkv x 0 0)) = mkv 0 0 0"
    if "0 \<le> x" and "x \<le> 1" for i x
  proof -
    have "(1000 - x) * (1000 - x) \<ge> 999 * 999"
      using that by (intro mult_mono) simp_all
    then show ?thesis
      by (simp add: pushForce_def Let_def distanceToSquared_def algebra_simps)
  qed
  have q: "map (\<lambda>p. dampedUpdate (1 / 50) (23 / 25) (pushForce True 60 (4 / 5) (mkv 1000 1000 0) p) p)
             closePair = closePair"
    by (simp add: closePair_def p dampedUpdate_resting)
  show ?thesis
    unfolding a physicsTick_particles [OF crowded_fields(3)] Let_def
    using q
    by (simp add: crowded_fields defaultForce_def farFrame_def defaultProps_def closePair_pass)
qed

lemma sqrt_900: "sqrt 900 = 30" "sqrt 10000 = 100"
  by (rule real_sqrt_unique; simp)+

lemma nudged_fields:
  "instancedMesh nudgedState" "particles nudgedState = [nudged, bystander]"
  "mouseInteractionState nudgedState = none" "\<not> isMorphing (morphState nudgedState)"
  "animatedForce nudgedState = defaultForce"
  by (simp_all add: nudgedState_def initialState_def idleMorph_def)

lemma nudged_props: "propsTick tint (frameAt 16) nudgedState = nudgedState"
  by (simp add: propsTick_def Let_def frameAt_def defaultProps_def nudgedState_def initialState_def
      mlerp_def lerpForce_def defaultForce_def)

lemma nudged_push:
  "pushForce True 60 (4 / 5) (mkv 0 0 0) nudged = mkv (2 / 5) 0 0"
  "pushForce True 60 (4 / 5) (mkv 0 0 0) bystander = mkv 0 0 0"
  "pushForceSimple (mkv 0 0 0) nudged = mkv (2 / 5) 0 0"
  "pushForceSimple (mkv 0 0 0) bystander = mkv 0 0 0"
  by (simp_all add: pushForce_def pushForceSimple_def Let_def nudged_def bystander_def distanceTo_def
      distanceToSquared_def sqrt_900 normalize_def vlength_def lengthSq_def subVectors_def
      multiplyScalar_def mkv_def)

lemma bystander_update: "dampedUpdate k d (mkv 0 0 0) bystander = bystander"
  unfolding bystander_def by (rule dampedUpdate_resting)

lemma nudged_update:
  "dampedUpdate (1 / 50) (23 / 25) (mkv (2 / 5) 0 0) nudged
     = nudged\<lparr>velocity := mkv (138 / 125) 0 0, currentPosition := mkv (3888 / 125) 0 0\<rparr>"
  by (simp add: dampedUpdate_def Let_def nudged_def vadd_def subVectors_def multiplyScalar_def
      mkv_def restingAt_def seedParticle_def)

lemma nudgedNext_pass: "handleCollisions nudgedNext (5 / 4) = nudgedNext"
proof -
  have "handleCollisions nudgedNext (5 / 4) = visitPair (5 / 4 * 2) 0 1 nudgedNext"
    by (rule handleCollisions_pair) (simp_all add: nudgedNext_def nudged_def bystander_def)
  also have "\<dots> = nudgedNext"
    by (rule visitPair_skip)
       (simp add: nudgedNext_def nudged_def bystander_def distanceToSquared_def)
  finally show ?thesis .
qed

subsection \<open>Force integration\<close>

text \<open>
  C2 (as the code has it). On a tick with no pointer interaction active, the force stage
  of \<^verbatim>\<open>animate\<close> (pointer push through the grid, then return force, damping and position
  update) maps every particle \<open>p\<close> left by the morph branch to \<open>dampedUpdate\<close> of \<open>p\<close>: the new
  velocity is the damping times the sum of the old velocity, the return force and the push
  contribution, and the new position is the old one plus the new velocity. With
  collisions switched off this is the particle array of the tick; with collisions
  switched on (the default) \<^verbatim>\<open>handleCollisions\<close> runs on it afterwards. The tick of
  \<^verbatim>\<open>ImageParticleEffect.tsx\<close>, which has no collisions, obeys the same rule with its
  constants.
\<close>

theorem force_integration:
  assumes "instancedMesh s" and "particles s \<noteq> []" and "mouseInteractionState s = none"
  shows "particles (animate av f s)
           = (let s2 = propsTick av f s;
                  s3 = (if isMorphing (morphState s2) then morphTick (now f) s2 else s2);
                  fp = animatedForce s2;
                  qs = map (\<lambda>p. dampedUpdate (returnStrength fp) (damping fp)
                                  (pushForce (enablePushForce (targetProps f)) (pushRadius fp)
                                     (pushStrength fp) (pointer f) p) p)
                         (particles s3)
              in if enableCollisions (targetProps f) then handleCollisions qs (particleSize fp)
                 else qs)
       \<and> particles (animateSimple (now f) (pointer f) s)
           = (let s3 = (if isMorphing (morphState s) then morphTick (now f) s else s)
              in map (\<lambda>p. dampedUpdate 0.02 0.92 (pushForceSimple (pointer f) p) p) (particles s3))"
proof -
  have m2: "mouseInteractionState (propsTick av f s) = none"
    using assms(3) by (simp add: propsTick_fields)
  have a: "particles (animate av f s) = particles (physicsTick f (propsTick av f s))"
    by (simp add: animate_physics [OF assms])
  let ?s3 = "if isMorphing (morphState s) then morphTick (now f) s else s"
  have ms: "mouseInteractionState ?s3 = none"
    using assms(3) by (simp add: morphTick_def Let_def)
  have b: "particles (animateSimple (now f) (pointer f) s)
             = map (\<lambda>p. dampedUpdate 0.02 0.92 (pushForceSimple (pointer f) p) p) (particles ?s3)"
    using assms ms by (simp add: animateSimple_def Let_def integrate_pushSimple)
  show ?thesis
    unfolding a physicsTick_particles [OF m2] using b by (simp add: Let_def)
qed

text \<open>
  With collisions switched on the update rule is not the whole tick. Two particles at
  rest at their attractors, one unit apart, with \<open>particleSize = 1.25\<close> and the pointer far
  away, get velocity zero from the rule, and the tick moves the first of them from the
  origin to \<open>(-3/4, 0, 0)\<close>.
\<close>

theorem force_integration_counterexample:
  "instancedMesh crowded \<and> particles crowded \<noteq> [] \<and> mouseInteractionState crowded = none
   \<and> enableCollisions (targetProps farFrame)
   \<and> currentPosition (particles crowded ! 0) = mkv 0 0 0
   \<and> velocity (particles (animate tint farFrame crowded) ! 0) = mkv 0 0 0
   \<and> currentPosition (particles (animate tint farFrame crowded) ! 0) = mkv (- 3 / 4) 0 0
   \<and> currentPosition (particles (animate tint farFrame crowded) ! 0)
       \<noteq> vadd (currentPosition (particles crowded ! 0))
            (velocity (particles (animate tint farFrame crowded) ! 0))"
  unfolding crowded_tick
  by (simp add: crowded_fields closePair_def closePairApart_def farFrame_def defaultProps_def
      vadd_def mkv_def)

theorem force_integration_witness:
  "instancedMesh nudgedState \<and> particles nudgedState \<noteq> []
   \<and> mouseInteractionState nudgedState = none
   \<and> enablePushForce (targetProps (frameAt 16)) \<and> enableCollisions (targetProps (frameAt 16))
   \<and> particles nudgedState = [nudged, bystander]
   \<and> particles (animate tint (frameAt 16) nudgedState)
       = [nudged\<lparr>velocity := mkv (138 / 125) 0 0, currentPosition := mkv (3888 / 125) 0 0\<rparr>,
          bystander]
   \<and> particles (animateSimple 16 (mkv 0 0 0) nudgedState)
       = [nudged\<lparr>velocity := mkv (138 / 125) 0 0, currentPosition := mkv (3888 / 125) 0 0\<rparr>,
          bystander]"
proof -
  have h1: "instancedMesh nudgedState" and h2: "particles nudgedState \<noteq> []"
    and h3: "mouseInteractionState nudgedState = none"
    by (simp_all add: nudged_fields)
  have e: "enablePushForce (targetProps (frameAt 16))" "enableCollisions (targetProps (frameAt 16))"
    by (simp_all add: frameAt_def defaultProps_def)
  have f: "now (frameAt 16) = 16" "pointer (frameAt 16) = mkv 0 0 0"
    by (simp_all add: frameAt_def)
  note w = force_integration [OF h1 h2 h3, of tint "frameAt 16", unfolded Let_def nudged_props f]
  have a: "particles (animate tint (frameAt 16) nudgedState) = nudgedNext"
    using w [THEN conjunct1]
    by (simp add: nudged_fields e defaultForce_def nudged_push nudged_update bystander_update
        nudgedNext_def [symmetric] nudgedNext_pass)
  have b: "particles (animateSimple 16 (mkv 0 0 0) nudgedState) = nudgedNext"
    using w [THEN conjunct2]
    by (simp add: nudged_fields nudged_push nudged_update bystander_update nudgedNext_def)
  from a b h1 h2 h3 e nudged_fields(2) show ?thesis
    unfolding nudgedNext_def by blast
qed

section \<open>The push force\<close>

lemma vlength_multiplyScalar: "vlength (multiplyScalar v k) = \<bar>k\<bar> * vlength v"
  by (simp add: vlength_def lengthSq_multiplyScalar real_sqrt_mult mult.commute)

lemma vlength_scaled_unit: "vlength u = 1 \<Longrightarrow> 0 \<le> k \<Longrightarrow> vlength (multiplyScalar u k) = k"
  by (simp add: vlength_multiplyScalar)

lemma multiplyScalar_two: "multiplyScalar (multiplyScalar w a) b = multiplyScalar w (a * b)"
  by (simp add: multiplyScalar_def mult.assoc)

lemma vlength_subVectors: "vlength (subVectors a b) = distanceTo a b"
  by (simp add: vlength_def distanceTo_def lengthSq_subVectors)

lemma sqrt_millionth: "sqrt (1 / 1000000) = 1 / 1000"
  by (rule real_sqrt_unique) (simp_all add: power2_eq_square)

lemma millionth_less_iff:
  assumes "0 \<le> (x::real)"
  shows "1 / 1000000 < x \<longleftrightarrow> 1 / 1000 < sqrt x"
proof -
  have "1 / 1000000 < x \<longleftrightarrow> sqrt (1 / 1000000) < sqrt x"
    by (simp only: real_sqrt_less_iff)
  then show ?thesis
    unfolding sqrt_millionth .
qed

lemma pushParticle_cases:
  assumes "0 < r"
  shows "pushParticle r st pos p
     = (let d = distanceTo (currentPosition p) pos
        in if 1 / 1000 < d \<and> d < r
           then p\<lparr>velocity := vadd (velocity p)
                    (multiplyScalar (multiplyScalar (subVectors (currentPosition p) pos) (1 / d))
                       (st * (r - d) / r))\<rparr>
           else p)"
proof -
  let ?dsq = "distanceToSquared (currentPosition p) pos"
  have c1: "1 / 1000000 < ?dsq \<longleftrightarrow> 1 / 1000 < distanceTo (currentPosition p) pos"
    using millionth_less_iff [OF distanceToSquared_nonneg] by (simp add: distanceTo_def)
  have c2: "?dsq < r * r \<longleftrightarrow> distanceTo (currentPosition p) pos < r"
    using sq_less_iff [OF assms distanceToSquared_nonneg] by (simp add: distanceTo_def)
  have v: "multiplyScalar (subVectors a pos) ((r - d) / r * st / d)
             = multiplyScalar (multiplyScalar (subVectors a pos) (1 / d)) (st * (r - d) / r)" for a d
    by (simp add: multiplyScalar_def subVectors_def mult_ac)
  show ?thesis
    unfolding pushParticle_def Let_def c1 c2 v distanceTo_def [symmetric] ..
qed

lemma pushSimple_cases:
  "pushSimple pos p
     = (let d = distanceTo (currentPosition p) pos
        in if 0 < d \<and> d < 60
           then p\<lparr>velocity := vadd (velocity p)
                    (multiplyScalar (multiplyScalar (subVectors (currentPosition p) pos) (1 / d))
                       (0.8 * (60 - d) / 60))\<rparr>
           else p)"
proof -
  let ?d = "distanceTo (currentPosition p) pos"
  have nn: "0 \<le> ?d"
    by (simp add: distanceTo_def distanceToSquared_nonneg)
  show ?thesis
  proof (cases "?d = 0")
    case True
    then have "distanceToSquared (currentPosition p) pos = 0"
      by (simp add: distanceTo_def)
    then have "subVectors (currentPosition p) pos = mkv 0 0 0"
      by (simp add: distanceToSquared_def subVectors_def Let_def sum_squares_eq_zero_iff
          add_nonneg_eq_0_iff)
    then show ?thesis
      using True
      by (simp add: pushSimple_def Let_def normalize_def multiplyScalar_def)
  next
    case False
    then have pos: "0 < ?d" using nn by simp
    have n: "normalize (subVectors (currentPosition p) pos)
               = multiplyScalar (subVectors (currentPosition p) pos) (1 / ?d)"
      using False by (simp add: normalize_def vlength_subVectors)
    have sc: "multiplyScalar (multiplyScalar (multiplyScalar v (1 / ?d)) ((60 - ?d) / 60)) 0.8
               = multiplyScalar (multiplyScalar v (1 / ?d)) (0.8 * (60 - ?d) / 60)" for v
      unfolding multiplyScalar_two
      by (rule arg_cong [where f = "multiplyScalar v"]) (simp add: mult.commute)
    show ?thesis
      unfolding pushSimple_def Let_def n sc using pos by simp
  qed
qed

text \<open>
  C8 (as the code has it). With a positive push radius and a non-negative push strength,
  the push stage of \<^verbatim>\<open>Framer.tsx\<close> (which the tick runs when push is enabled and no pointer
  interaction is active) adds to the velocity of every particle at distance \<open>d\<close> from the
  pointer with \<open>1/1000 < d < pushRadius\<close> (the code tests \<open>d\<^sup>2 > 1e-6\<close>) a vector along the
  unit direction away from the pointer, of magnitude \<open>pushStrength * (pushRadius - d) / pushRadius\<close>,
  and leaves every other particle as it is. The push of \<^verbatim>\<open>ImageParticleEffect.tsx\<close> has no
  test for small distances: it acts the same way on every particle with \<open>0 < d < 60\<close>.
\<close>

theorem push_force:
  assumes "0 < pRadius" and "0 \<le> pStrength" and "i < length ps"
  shows "(let p = ps ! i;
              q = applyPush pRadius pStrength pos ps ! i;
              d = distanceTo (currentPosition p) pos;
              away = multiplyScalar (subVectors (currentPosition p) pos) (1 / d);
              push = multiplyScalar away (pStrength * (pRadius - d) / pRadius)
          in if 1 / 1000 < d \<and> d < pRadius
             then q = p\<lparr>velocity := vadd (velocity p) push\<rparr> \<and> vlength away = 1
                \<and> vlength push = pStrength * (pRadius - d) / pRadius
             else q = p)
       \<and> (let p = ps ! i;
              q = pushSimple pos p;
              d = distanceTo (currentPosition p) pos;
              away = multiplyScalar (subVectors (currentPosition p) pos) (1 / d);
              push = multiplyScalar away (0.8 * (60 - d) / 60)
          in if 0 < d \<and> d < 60
             then q = p\<lparr>velocity := vadd (velocity p) push\<rparr> \<and> vlength away = 1
                \<and> vlength push = 0.8 * (60 - d) / 60
             else q = p)"
proof -
  let ?p = "ps ! i"
  let ?d = "distanceTo (currentPosition ?p) pos"
  let ?away = "multiplyScalar (subVectors (currentPosition ?p) pos) (1 / ?d)"
  have unit: "vlength ?away = 1" if "0 < ?d"
  proof -
    have "0 < distanceToSquared (currentPosition ?p) pos"
      using that by (simp add: distanceTo_def)
    then show ?thesis by (rule normal_unit)
  qed
  have q: "applyPush pRadius pStrength pos ps ! i = pushParticle pRadius pStrength pos ?p"
    by (rule applyPush_nth [OF assms(1,3)])
  have first: "if 1 / 1000 < ?d \<and> ?d < pRadius
       then applyPush pRadius pStrength pos ps ! i
              = ?p\<lparr>velocity := vadd (velocity ?p)
                    (multiplyScalar ?away (pStrength * (pRadius - ?d) / pRadius))\<rparr>
          \<and> vlength ?away = 1
          \<and> vlength (multiplyScalar ?away (pStrength * (pRadius - ?d) / pRadius))
              = pStrength * (pRadius - ?d) / pRadius
       else applyPush pRadius pStrength pos ps ! i = ?p"
  proof (cases "1 / 1000 < ?d \<and> ?d < pRadius")
    case True
    then have pos: "0 < ?d" by simp
    have nn: "0 \<le> pStrength * (pRadius - ?d) / pRadius"
      using True assms(1,2) by simp
    have m: "vlength (multiplyScalar ?away (pStrength * (pRadius - ?d) / pRadius))
               = pStrength * (pRadius - ?d) / pRadius"
      by (rule vlength_scaled_unit [OF unit [OF pos] nn])
    have e: "applyPush pRadius pStrength pos ps ! i
              = ?p\<lparr>velocity := vadd (velocity ?p)
                    (multiplyScalar ?away (pStrength * (pRadius - ?d) / pRadius))\<rparr>"
      unfolding q pushParticle_cases [OF assms(1)] Let_def if_P [OF True] ..
    show ?thesis
      unfolding if_P [OF True] using e unit [OF pos] m by blast
  next
    case False
    have e: "applyPush pRadius pStrength pos ps ! i = ?p"
      unfolding q pushParticle_cases [OF assms(1)] Let_def if_not_P [OF False] ..
    show ?thesis
      unfolding if_not_P [OF False] by (rule e)
  qed
  have second: "if 0 < ?d \<and> ?d < 60
       then pushSimple pos ?p
              = ?p\<lparr>velocity := vadd (velocity ?p) (multiplyScalar ?away (0.8 * (60 - ?d) / 60))\<rparr>
          \<and> vlength ?away = 1
          \<and> vlength (multiplyScalar ?away (0.8 * (60 - ?d) / 60)) = 0.8 * (60 - ?d) / 60
       else pushSimple pos ?p = ?p"
  proof (cases "0 < ?d \<and> ?d < 60")
    case True
    then have pos: "0 < ?d" by simp
    have nn: "0 \<le> 0.8 * (60 - ?d) / 60"
      using True by simp
    have m: "vlength (multiplyScalar ?away (0.8 * (60 - ?d) / 60)) = 0.8 * (60 - ?d) / 60"
      by (rule vlength_scaled_unit [OF unit [OF pos] nn])
    have e: "pushSimple pos ?p
              = ?p\<lparr>velocity := vadd (velocity ?p) (multiplyScalar ?away (0.8 * (60 - ?d) / 60))\<rparr>"
      unfolding pushSimple_cases Let_def if_P [OF True] ..
    show ?thesis
      unfolding if_P [OF True] using e unit [OF pos] m by blast
  next
    case False
    have e: "pushSimple pos ?p = ?p"
      unfolding pushSimple_cases Let_def if_not_P [OF False] ..
    show ?thesis
      unfolding if_not_P [OF False] by (rule e)
  qed
  show ?thesis
    unfolding Let_def using first second by blast
qed

lemma nearPointer_facts:
  "length nearPointer = 3"
  "currentPosition (nearPointer ! 0) = mkv (1 / 10000) 0 0"
  "currentPosition (nearPointer ! 1) = mkv 30 0 0"
  "currentPosition (nearPointer ! 2) = mkv 1000 0 0"
  "velocity (nearPointer ! 1) = mkv 0 0 0"
  by (simp_all add: nearPointer_def)

lemma dist_on_axis: "0 \<le> a \<Longrightarrow> distanceTo (mkv a 0 0) (mkv 0 0 0) = a"
  by (simp add: distanceTo_def distanceToSquared_def)

theorem push_force_counterexample:
  "distanceTo (currentPosition (nearPointer ! 0)) (mkv 0 0 0) = 1 / 10000
   \<and> 1 / 1000000 \<le> distanceTo (currentPosition (nearPointer ! 0)) (mkv 0 0 0)
   \<and> distanceTo (currentPosition (nearPointer ! 0)) (mkv 0 0 0) < 60
   \<and> velocity (applyPush 60 (4 / 5) (mkv 0 0 0) nearPointer ! 0) = velocity (nearPointer ! 0)"
proof -
  have d: "distanceTo (currentPosition (nearPointer ! 0)) (mkv 0 0 0) = 1 / 10000"
    unfolding nearPointer_facts by (rule dist_on_axis) simp
  have "(0::nat) < length nearPointer"
    by (simp add: nearPointer_facts)
  then have "applyPush 60 (4 / 5) (mkv 0 0 0) nearPointer ! 0
               = pushParticle 60 (4 / 5) (mkv 0 0 0) (nearPointer ! 0)"
    by (rule applyPush_nth [rotated]) simp
  also have "\<dots> = nearPointer ! 0"
    unfolding pushParticle_cases [of 60, simplified] Let_def d by simp
  finally show ?thesis
    using d by simp
qed

theorem push_force_witness:
  "0 < (60::real) \<and> 0 \<le> (4 / 5 :: real) \<and> (1::nat) < length nearPointer
   \<and> velocity (applyPush 60 (4 / 5) (mkv 0 0 0) nearPointer ! 1) = mkv (2 / 5) 0 0
   \<and> applyPush 60 (4 / 5) (mkv 0 0 0) nearPointer ! 2 = nearPointer ! 2"
proof -
  have h1: "0 < (60::real)" and h2: "0 \<le> (4 / 5 :: real)" by simp_all
  have h3: "(1::nat) < length nearPointer" and h4: "(2::nat) < length nearPointer"
    by (simp_all add: nearPointer_facts)
  have d1: "distanceTo (mkv 30 0 0) (mkv 0 0 0) = 30"
    by (rule dist_on_axis) simp
  have d2: "distanceTo (mkv 1000 0 0) (mkv 0 0 0) = 1000"
    by (rule dist_on_axis) simp
  have c1: "1 / 1000 < (30::real) \<and> (30::real) < 60" by simp
  have c2: "\<not> (1 / 1000 < (1000::real) \<and> (1000::real) < 60)" by simp
  have a: "velocity (applyPush 60 (4 / 5) (mkv 0 0 0) nearPointer ! 1) = mkv (2 / 5) 0 0"
    using push_force [OF h1 h2 h3, of "mkv 0 0 0", THEN conjunct1,
        unfolded Let_def nearPointer_facts d1 if_P [OF c1], THEN conjunct1]
    by (simp add: vadd_def multiplyScalar_def subVectors_def)
  have b: "applyPush 60 (4 / 5) (mkv 0 0 0) nearPointer ! 2 = nearPointer ! 2"
    using push_force [OF h1 h2 h4, of "mkv 0 0 0", THEN conjunct1,
        unfolded Let_def nearPointer_facts d2 if_not_P [OF c2]] .
  from h1 h2 h3 a b show ?thesis by blast
qed

section \<open>Damping\<close>

subsection \<open>A linear recurrence of order two with both roots inside the unit circle\<close>

lemma geometric_underdamped:
  fixes e :: "nat \<Rightarrow> real"
  assumes rec: "\<And>n. e (Suc (Suc n)) = T * e (Suc n) - D * e n"
    and D: "0 < D" and disc: "T\<^sup>2 < 4 * D"
  shows "\<exists>C\<ge>0. \<forall>n. \<bar>e n\<bar> \<le> C * sqrt D ^ n"
proof -
  define Q where "Q n = (e (Suc n))\<^sup>2 - T * e (Suc n) * e n + D * (e n)\<^sup>2" for n
  have step: "Q (Suc n) = D * Q n" for n
    unfolding Q_def rec by (simp add: power2_eq_square algebra_simps)
  have Qn: "Q n = D ^ n * Q 0" for n
    by (induction n) (simp_all add: step)
  define c where "c = D - T\<^sup>2 / 4"
  have c: "0 < c"
    using disc by (simp add: c_def)
  have low: "c * (e n)\<^sup>2 \<le> Q n" for n
  proof -
    have "Q n - c * (e n)\<^sup>2 = (e (Suc n) - T / 2 * e n)\<^sup>2"
      unfolding Q_def c_def by (simp add: power2_eq_square algebra_simps)
    moreover have "0 \<le> (e (Suc n) - T / 2 * e n)\<^sup>2"
      by simp
    ultimately show ?thesis by linarith
  qed
  have "0 \<le> c * (e 0)\<^sup>2"
    using c by simp
  then have Q0: "0 \<le> Q 0"
    using low [of 0] by linarith
  define C where "C = sqrt (Q 0 / c)"
  have C: "0 \<le> C"
    using Q0 c by (simp add: C_def)
  have "\<bar>e n\<bar> \<le> C * sqrt D ^ n" for n
  proof -
    have "(e n)\<^sup>2 \<le> Q n / c"
      using low [of n] c by (simp add: pos_le_divide_eq mult.commute)
    also have "\<dots> = (Q 0 / c) * D ^ n"
      by (simp add: Qn [of n])
    finally have "sqrt ((e n)\<^sup>2) \<le> sqrt ((Q 0 / c) * D ^ n)"
      by (simp only: real_sqrt_le_iff)
    moreover have "sqrt ((e n)\<^sup>2) = \<bar>e n\<bar>"
      by simp
    moreover have "sqrt ((Q 0 / c) * D ^ n) = C * sqrt D ^ n"
      by (simp only: C_def real_sqrt_mult real_sqrt_power)
    ultimately show ?thesis
      by (simp only:)
  qed
  with C show ?thesis by blast
qed

lemma geometric_overdamped:
  fixes e :: "nat \<Rightarrow> real"
  assumes rec: "\<And>n. e (Suc (Suc n)) = T * e (Suc n) - D * e n"
    and D: "0 < D" "D < 1" and T: "\<bar>T\<bar> < 1 + D" and disc: "4 * D \<le> T\<^sup>2"
  shows "(1 + (\<bar>T\<bar> + sqrt (T\<^sup>2 - 4 * D)) / 2) / 2 < 1
       \<and> (\<exists>C\<ge>0. \<forall>n. \<bar>e n\<bar> \<le> C * ((1 + (\<bar>T\<bar> + sqrt (T\<^sup>2 - 4 * D)) / 2) / 2) ^ n)"
proof -
  define s where "s = sqrt (T\<^sup>2 - 4 * D)"
  have s0: "0 \<le> s"
    using disc by (simp add: s_def)
  have s2: "s\<^sup>2 = T\<^sup>2 - 4 * D"
    using disc by (simp add: s_def)
  have gap: "0 < 2 - \<bar>T\<bar>"
    using T D by linarith
  have d: "(2 - \<bar>T\<bar>)\<^sup>2 - s\<^sup>2 = 4 * (1 + D - \<bar>T\<bar>)"
    unfolding s2 by (simp add: power2_eq_square algebra_simps)
  have p: "0 < 4 * (1 + D - \<bar>T\<bar>)"
    using T by simp
  have "0 < (2 - \<bar>T\<bar>)\<^sup>2 - s\<^sup>2"
    unfolding d by (rule p)
  then have "s\<^sup>2 < (2 - \<bar>T\<bar>)\<^sup>2"
    by (simp only: diff_gt_0_iff_gt)
  then have s_lt: "s < 2 - \<bar>T\<bar>"
    by (rule power2_less_imp_less) (use gap in simp)
  define r1 where "r1 = (T + s) / 2"
  define r2 where "r2 = (T - s) / 2"
  define \<sigma> where "\<sigma> = (\<bar>T\<bar> + s) / 2"
  define \<rho> where "\<rho> = (1 + \<sigma>) / 2"
  have sum: "r1 + r2 = T"
    by (simp add: r1_def r2_def field_simps)
  have "r1 * r2 = (T\<^sup>2 - s\<^sup>2) / 4"
    by (simp add: r1_def r2_def power2_eq_square algebra_simps)
  then have prod: "r1 * r2 = D"
    unfolding s2 by simp
  have b1: "\<bar>r1\<bar> \<le> \<sigma>" and b2: "\<bar>r2\<bar> \<le> \<sigma>"
    using s0 by (simp_all add: r1_def r2_def \<sigma>_def)
  have \<sigma>0: "0 \<le> \<sigma>" and \<sigma>1: "\<sigma> < 1"
    using s0 s_lt by (simp_all add: \<sigma>_def)
  have \<rho>: "\<sigma> < \<rho>" "\<rho> < 1" "0 < \<rho>"
    using \<sigma>0 \<sigma>1 by (simp_all add: \<rho>_def)
  define u where "u n = e (Suc n) - r1 * e n" for n
  have ustep: "u (Suc n) = r2 * u n" for n
  proof -
    have "u (Suc n) = (T - r1) * e (Suc n) - D * e n"
      unfolding u_def rec by (simp add: algebra_simps)
    also have "\<dots> = r2 * e (Suc n) - r1 * r2 * e n"
    proof -
      have t: "T - r1 = r2" using sum by linarith
      show ?thesis unfolding t prod ..
    qed
    also have "\<dots> = r2 * u n"
      unfolding u_def by (simp add: algebra_simps)
    finally show ?thesis .
  qed
  have un: "u n = r2 ^ n * u 0" for n
    by (induction n) (simp_all add: ustep)
  have ubound: "\<bar>u n\<bar> \<le> \<bar>u 0\<bar> * \<rho> ^ n" for n
  proof -
    have "\<bar>r2\<bar> \<le> \<rho>"
      using b2 \<rho>(1) by linarith
    then have "\<bar>r2\<bar> ^ n \<le> \<rho> ^ n"
      by (simp add: power_mono)
    then have "\<bar>r2\<bar> ^ n * \<bar>u 0\<bar> \<le> \<rho> ^ n * \<bar>u 0\<bar>"
      by (simp add: mult_right_mono)
    then show ?thesis
      by (simp add: un [of n] abs_mult power_abs mult.commute)
  qed
  define K where "K = max \<bar>e 0\<bar> (\<bar>u 0\<bar> / (\<rho> - \<sigma>))"
  have K0: "0 \<le> K"
  proof -
    have "\<bar>e 0\<bar> \<le> K" by (simp add: K_def)
    then show ?thesis by linarith
  qed
  have Ku: "\<bar>u 0\<bar> \<le> K * (\<rho> - \<sigma>)"
  proof -
    have "\<bar>u 0\<bar> / (\<rho> - \<sigma>) \<le> K"
      by (simp add: K_def)
    then show ?thesis
      using \<rho>(1) by (simp add: field_simps)
  qed
  have bound: "\<bar>e n\<bar> \<le> K * \<rho> ^ n" for n
  proof (induction n)
    case 0
    show ?case by (simp add: K_def)
  next
    case (Suc n)
    have pn: "0 \<le> \<rho> ^ n"
      using \<rho>(3) by simp
    have "e (Suc n) = r1 * e n + u n"
      by (simp add: u_def)
    moreover have "\<bar>r1 * e n + u n\<bar> \<le> \<bar>r1 * e n\<bar> + \<bar>u n\<bar>"
      by (rule abs_triangle_ineq)
    ultimately have "\<bar>e (Suc n)\<bar> \<le> \<bar>r1\<bar> * \<bar>e n\<bar> + \<bar>u n\<bar>"
      by (simp add: abs_mult)
    also have "\<dots> \<le> \<sigma> * (K * \<rho> ^ n) + \<bar>u 0\<bar> * \<rho> ^ n"
    proof -
      have "\<bar>r1\<bar> * \<bar>e n\<bar> \<le> \<sigma> * (K * \<rho> ^ n)"
        using b1 Suc.IH by (intro mult_mono) (simp_all add: \<sigma>0)
      then show ?thesis
        using ubound [of n] by linarith
    qed
    also have "\<dots> \<le> \<sigma> * (K * \<rho> ^ n) + K * (\<rho> - \<sigma>) * \<rho> ^ n"
      using Ku pn by (simp add: mult_right_mono)
    also have "\<dots> = K * \<rho> ^ Suc n"
      by (simp add: algebra_simps)
    finally show ?case .
  qed
  have "\<rho> = (1 + (\<bar>T\<bar> + sqrt (T\<^sup>2 - 4 * D)) / 2) / 2"
    by (simp add: \<rho>_def \<sigma>_def s_def)
  then show ?thesis
    using \<rho>(2) K0 bound by blast
qed

lemma rec2_geometric:
  fixes T D :: real
  assumes "0 < D" and "D < 1" and "\<bar>T\<bar> < 1 + D"
  shows "\<exists>\<rho>. 0 < \<rho> \<and> \<rho> < 1
           \<and> (\<forall>e. (\<forall>n. e (Suc (Suc n)) = T * e (Suc n) - D * e n)
                  \<longrightarrow> (\<exists>C\<ge>0. \<forall>n. \<bar>e n\<bar> \<le> C * \<rho> ^ n))"
proof (cases "T\<^sup>2 < 4 * D")
  case True
  have "0 < sqrt D" "sqrt D < 1"
    using assms(1,2) by simp_all
  moreover have "\<exists>C\<ge>0. \<forall>n. \<bar>e n\<bar> \<le> C * sqrt D ^ n"
    if "\<forall>n. e (Suc (Suc n)) = T * e (Suc n) - D * e n" for e :: "nat \<Rightarrow> real"
    using geometric_underdamped [of e T D] that assms(1) True by blast
  ultimately show ?thesis by blast
next
  case False
  then have disc: "4 * D \<le> T\<^sup>2" by simp
  let ?\<rho> = "(1 + (\<bar>T\<bar> + sqrt (T\<^sup>2 - 4 * D)) / 2) / 2"
  have pos: "0 < ?\<rho>"
  proof -
    have "0 \<le> sqrt (T\<^sup>2 - 4 * D)" using disc by simp
    then show ?thesis by (simp add: add_pos_nonneg)
  qed
  have lt: "?\<rho> < 1"
    using geometric_overdamped [of "\<lambda>n. 0" T D] assms disc by simp
  have "\<exists>C\<ge>0. \<forall>n. \<bar>e n\<bar> \<le> C * ?\<rho> ^ n"
    if "\<forall>n. e (Suc (Suc n)) = T * e (Suc n) - D * e n" for e :: "nat \<Rightarrow> real"
    using geometric_overdamped [of e T D] that assms disc by blast
  with pos lt show ?thesis by blast
qed

lemma relax_Suc: "relax k d (Suc n) p = integrate k d (relax k d n p)"
  by (simp add: relax_def)

lemma relax_attractor: "attractorPosition (relax k d n p) = attractorPosition p"
  by (induction n) (simp_all add: relax_def integrate_def Let_def)

lemma pair_recurrence:
  fixes V E :: "nat \<Rightarrow> real"
  assumes v: "\<And>n. V (Suc n) = (V n + (0 - E n) * k) * d"
    and e: "\<And>n. E (Suc n) = E n + V (Suc n)"
  shows "E (Suc (Suc n)) = (1 + d - d * k) * E (Suc n) - d * E n"
    and "V (Suc (Suc n)) = (1 + d - d * k) * V (Suc n) - d * V n"
proof -
  have dv: "V (Suc n) = E (Suc n) - E n"
    using e [of n] by simp
  have "E (Suc (Suc n)) = E (Suc n) + (V (Suc n) + (0 - E (Suc n)) * k) * d"
    using e [of "Suc n"] v [of "Suc n"] by simp
  also have "\<dots> = (1 + d - d * k) * E (Suc n) - d * E n"
    unfolding dv by (simp add: algebra_simps)
  finally show "E (Suc (Suc n)) = (1 + d - d * k) * E (Suc n) - d * E n" .
  have ek: "E n * k * d = V n * d - V (Suc n)"
    using v [of n] by (simp add: algebra_simps)
  have "V (Suc (Suc n)) = (V (Suc n) + (0 - (E n + V (Suc n))) * k) * d"
    using v [of "Suc n"] e [of n] by simp
  also have "\<dots> = d * V (Suc n) - d * k * V (Suc n) - E n * k * d"
    by (simp add: algebra_simps)
  also have "\<dots> = (1 + d - d * k) * V (Suc n) - d * V n"
    unfolding ek by (simp add: algebra_simps)
  finally show "V (Suc (Suc n)) = (1 + d - d * k) * V (Suc n) - d * V n" .
qed

lemma sqrt_three_squares: "sqrt (x * x + y * y + z * z) \<le> \<bar>x\<bar> + \<bar>y\<bar> + \<bar>z\<bar>"
proof -
  define A where "A = \<bar>x\<bar> * \<bar>y\<bar> + \<bar>x\<bar> * \<bar>z\<bar> + \<bar>y\<bar> * \<bar>z\<bar>"
  have A: "0 \<le> A"
    by (simp add: A_def add_nonneg_nonneg)
  have eq: "(\<bar>x\<bar> + \<bar>y\<bar> + \<bar>z\<bar>)\<^sup>2 = x * x + y * y + z * z + 2 * A"
    by (simp add: A_def power2_eq_square algebra_simps)
  have "x * x + y * y + z * z \<le> (\<bar>x\<bar> + \<bar>y\<bar> + \<bar>z\<bar>)\<^sup>2"
    unfolding eq using A by simp
  then show ?thesis
    by (rule real_le_lsqrt [rotated 1]) simp
qed

lemma geometric_small:
  fixes C \<rho> \<epsilon> :: real
  assumes "0 \<le> \<rho>" and "\<rho> < 1" and "0 < \<epsilon>"
  shows "\<exists>N. \<forall>n\<ge>N. C * \<rho> ^ n < \<epsilon>"
proof -
  have "(\<lambda>n. \<rho> ^ n) \<longlonglongrightarrow> 0"
    using assms(1,2) by (rule LIMSEQ_realpow_zero)
  then have "(\<lambda>n. C * \<rho> ^ n) \<longlonglongrightarrow> C * 0"
    by (rule tendsto_mult_left)
  then have "(\<lambda>n. C * \<rho> ^ n) \<longlonglongrightarrow> 0"
    by simp
  from LIMSEQ_D [OF this assms(3)] obtain N where "\<forall>n\<ge>N. norm (C * \<rho> ^ n - 0) < \<epsilon>"
    by blast
  then have "\<forall>n\<ge>N. C * \<rho> ^ n < \<epsilon>"
    by (auto simp add: abs_less_iff)
  then show ?thesis ..
qed

lemma relax_geometric:
  assumes "0 < dmp" and "dmp < 1" and "0 < dmp * k" and "dmp * k < 2 * (1 + dmp)"
  shows "\<exists>C \<rho>. 0 \<le> C \<and> 0 < \<rho> \<and> \<rho> < 1
           \<and> (\<forall>n. distanceTo (currentPosition (relax k dmp n p)) (attractorPosition p) \<le> C * \<rho> ^ n)
           \<and> (\<forall>n. vlength (velocity (relax k dmp n p)) \<le> C * \<rho> ^ n)"
proof -
  let ?T = "1 + dmp - dmp * k"
  have T: "\<bar>?T\<bar> < 1 + dmp"
    using assms by (simp add: abs_less_iff)
  from rec2_geometric [OF assms(1,2) T] obtain \<rho> where \<rho>: "0 < \<rho>" "\<rho> < 1"
    and geo: "\<And>e. (\<forall>n. e (Suc (Suc n)) = ?T * e (Suc n) - dmp * e n)
                  \<Longrightarrow> \<exists>C\<ge>0. \<forall>n. \<bar>e n\<bar> \<le> C * \<rho> ^ n"
    by blast
  let ?q = "\<lambda>n. relax k dmp n p"
  let ?a = "attractorPosition p"
  have coord: "\<exists>C\<ge>0. \<forall>n. \<bar>c (currentPosition (?q n)) - c ?a\<bar> \<le> C * \<rho> ^ n"
              "\<exists>C\<ge>0. \<forall>n. \<bar>c (velocity (?q n))\<bar> \<le> C * \<rho> ^ n"
    if cv: "\<And>q. c (velocity (integrate k dmp q))
                 = (c (velocity q) + (c (attractorPosition q) - c (currentPosition q)) * k) * dmp"
      and cp: "\<And>q. c (currentPosition (integrate k dmp q))
                 = c (currentPosition q) + c (velocity (integrate k dmp q))"
    for c :: "vec3 \<Rightarrow> real"
  proof -
    let ?V = "\<lambda>n. c (velocity (?q n))"
    let ?E = "\<lambda>n. c (currentPosition (?q n)) - c ?a"
    have v: "?V (Suc n) = (?V n + (0 - ?E n) * k) * dmp" for n
      unfolding relax_Suc cv relax_attractor by simp
    have e: "?E (Suc n) = ?E n + ?V (Suc n)" for n
      unfolding relax_Suc cp by simp
    have "\<forall>n. ?E (Suc (Suc n)) = ?T * ?E (Suc n) - dmp * ?E n"
      using pair_recurrence(1) [of ?V ?E k dmp, OF v e] by blast
    then show "\<exists>C\<ge>0. \<forall>n. \<bar>c (currentPosition (?q n)) - c ?a\<bar> \<le> C * \<rho> ^ n"
      by (rule geo)
    have "\<forall>n. ?V (Suc (Suc n)) = ?T * ?V (Suc n) - dmp * ?V n"
      using pair_recurrence(2) [of ?V ?E k dmp, OF v e] by blast
    then show "\<exists>C\<ge>0. \<forall>n. \<bar>c (velocity (?q n))\<bar> \<le> C * \<rho> ^ n"
      by (rule geo)
  qed
  have sx: "vx (velocity (integrate k dmp q))
                 = (vx (velocity q) + (vx (attractorPosition q) - vx (currentPosition q)) * k) * dmp"
           "vx (currentPosition (integrate k dmp q))
                 = vx (currentPosition q) + vx (velocity (integrate k dmp q))" for q
    by (simp_all add: integrate_def Let_def vadd_def multiplyScalar_def subVectors_def)
  have sy: "vy (velocity (integrate k dmp q))
                 = (vy (velocity q) + (vy (attractorPosition q) - vy (currentPosition q)) * k) * dmp"
           "vy (currentPosition (integrate k dmp q))
                 = vy (currentPosition q) + vy (velocity (integrate k dmp q))" for q
    by (simp_all add: integrate_def Let_def vadd_def multiplyScalar_def subVectors_def)
  have sz: "vz (velocity (integrate k dmp q))
                 = (vz (velocity q) + (vz (attractorPosition q) - vz (currentPosition q)) * k) * dmp"
           "vz (currentPosition (integrate k dmp q))
                 = vz (currentPosition q) + vz (velocity (integrate k dmp q))" for q
    by (simp_all add: integrate_def Let_def vadd_def multiplyScalar_def subVectors_def)
  from coord(1) [of vx, OF sx] obtain Cx where Cx: "0 \<le> Cx"
    "\<And>n. \<bar>vx (currentPosition (?q n)) - vx ?a\<bar> \<le> Cx * \<rho> ^ n" by blast
  from coord(1) [of vy, OF sy] obtain Cy where Cy: "0 \<le> Cy"
    "\<And>n. \<bar>vy (currentPosition (?q n)) - vy ?a\<bar> \<le> Cy * \<rho> ^ n" by blast
  from coord(1) [of vz, OF sz] obtain Cz where Cz: "0 \<le> Cz"
    "\<And>n. \<bar>vz (currentPosition (?q n)) - vz ?a\<bar> \<le> Cz * \<rho> ^ n" by blast
  from coord(2) [of vx, OF sx] obtain Dx where Dx: "0 \<le> Dx"
    "\<And>n. \<bar>vx (velocity (?q n))\<bar> \<le> Dx * \<rho> ^ n" by blast
  from coord(2) [of vy, OF sy] obtain Dy where Dy: "0 \<le> Dy"
    "\<And>n. \<bar>vy (velocity (?q n))\<bar> \<le> Dy * \<rho> ^ n" by blast
  from coord(2) [of vz, OF sz] obtain Dz where Dz: "0 \<le> Dz"
    "\<And>n. \<bar>vz (velocity (?q n))\<bar> \<le> Dz * \<rho> ^ n" by blast
  define C where "C = Cx + Cy + Cz + Dx + Dy + Dz"
  have C0: "0 \<le> C"
    using Cx(1) Cy(1) Cz(1) Dx(1) Dy(1) Dz(1) by (simp add: C_def)
  have pn: "0 \<le> \<rho> ^ n" for n
    using \<rho>(1) by simp
  have pos: "distanceTo (currentPosition (?q n)) ?a \<le> C * \<rho> ^ n" for n
  proof -
    have "distanceTo (currentPosition (?q n)) ?a
            \<le> \<bar>vx (currentPosition (?q n)) - vx ?a\<bar> + \<bar>vy (currentPosition (?q n)) - vy ?a\<bar>
              + \<bar>vz (currentPosition (?q n)) - vz ?a\<bar>"
      unfolding distanceTo_def distanceToSquared_def Let_def by (rule sqrt_three_squares)
    also have "\<dots> \<le> Cx * \<rho> ^ n + Cy * \<rho> ^ n + Cz * \<rho> ^ n"
      using Cx(2) [of n] Cy(2) [of n] Cz(2) [of n] by linarith
    also have "\<dots> \<le> C * \<rho> ^ n"
    proof -
      have "0 \<le> (Dx + Dy + Dz) * \<rho> ^ n"
        using Dx(1) Dy(1) Dz(1) pn [of n] by simp
      then show ?thesis
        by (simp add: C_def algebra_simps)
    qed
    finally show ?thesis .
  qed
  have vel: "vlength (velocity (?q n)) \<le> C * \<rho> ^ n" for n
  proof -
    have "vlength (velocity (?q n))
            \<le> \<bar>vx (velocity (?q n))\<bar> + \<bar>vy (velocity (?q n))\<bar> + \<bar>vz (velocity (?q n))\<bar>"
      unfolding vlength_def lengthSq_def by (rule sqrt_three_squares)
    also have "\<dots> \<le> Dx * \<rho> ^ n + Dy * \<rho> ^ n + Dz * \<rho> ^ n"
      using Dx(2) [of n] Dy(2) [of n] Dz(2) [of n] by linarith
    also have "\<dots> \<le> C * \<rho> ^ n"
    proof -
      have "0 \<le> (Cx + Cy + Cz) * \<rho> ^ n"
        using Cx(1) Cy(1) Cz(1) pn [of n] by simp
      then show ?thesis
        by (simp add: C_def algebra_simps)
    qed
    finally show ?thesis .
  qed
  from C0 \<rho> pos vel show ?thesis by blast
qed

text \<open>
  C9 (as the code has it). Under the update of the force integration loop with no push,
  a fixed attractor, \<open>0 < damping < 1\<close> and \<open>0 < damping * returnStrength < 2 * (1 + damping)\<close>,
  the distance of a particle to its attractor falls below every positive \<open>\<epsilon>\<close> from some
  tick on, and the magnitude of its velocity is bounded by a geometric sequence,
  whatever position and velocity it starts from. The constants of
  \<^verbatim>\<open>ImageParticleEffect.tsx\<close> (0.02 and 0.92) satisfy the condition.
\<close>

theorem damped_return_converges:
  assumes "0 < dmp" and "dmp < 1" and "0 < dmp * k" and "dmp * k < 2 * (1 + dmp)"
  shows "convergesToAttractor k dmp p \<and> velocityDecays k dmp p"
proof -
  from relax_geometric [OF assms, of p] obtain C \<rho> where C: "0 \<le> C" and \<rho>: "0 < \<rho>" "\<rho> < 1"
    and pos: "\<And>n. distanceTo (currentPosition (relax k dmp n p)) (attractorPosition p) \<le> C * \<rho> ^ n"
    and vel: "\<And>n. vlength (velocity (relax k dmp n p)) \<le> C * \<rho> ^ n"
    by blast
  have "\<exists>N. \<forall>n\<ge>N. distanceTo (currentPosition (relax k dmp n p)) (attractorPosition p) < \<epsilon>"
    if "0 < \<epsilon>" for \<epsilon>
  proof -
    from geometric_small [of \<rho> \<epsilon> C] \<rho> that obtain N where N: "\<forall>n\<ge>N. C * \<rho> ^ n < \<epsilon>"
      by auto
    have "\<forall>n\<ge>N. distanceTo (currentPosition (relax k dmp n p)) (attractorPosition p) < \<epsilon>"
    proof (intro allI impI)
      fix n assume "N \<le> n"
      with N have "C * \<rho> ^ n < \<epsilon>" by blast
      with pos [of n] show "distanceTo (currentPosition (relax k dmp n p)) (attractorPosition p) < \<epsilon>"
        by linarith
    qed
    then show ?thesis ..
  qed
  then have "convergesToAttractor k dmp p"
    by (simp add: convergesToAttractor_def)
  moreover have "velocityDecays k dmp p"
    unfolding velocityDecays_def using C \<rho> vel by blast
  ultimately show ?thesis ..
qed

lemma displaced_fixed: "integrate 0 (1 / 2) displaced = displaced"
  by (simp add: integrate_def Let_def displaced_def restingAt_def seedParticle_def
      vadd_def multiplyScalar_def subVectors_def mkv_def)

lemma displaced_relax: "relax 0 (1 / 2) n displaced = displaced"
  by (induction n) (simp_all add: relax_def displaced_fixed)

theorem damped_return_converges_counterexample:
  "(1 / 2 :: real) < 1 \<and> velocity displaced = mkv 0 0 0
   \<and> \<not> convergesToAttractor 0 (1 / 2) displaced"
proof -
  have d: "distanceTo (currentPosition displaced) (attractorPosition displaced) = 1"
    by (simp add: displaced_def distanceTo_def distanceToSquared_def)
  have "\<not> convergesToAttractor 0 (1 / 2) displaced"
  proof
    assume c: "convergesToAttractor 0 (1 / 2) displaced"
    from c [unfolded convergesToAttractor_def, rule_format, of "1 / 2"]
    obtain N where "\<forall>n\<ge>N. distanceTo (currentPosition (relax 0 (1 / 2) n displaced))
                 (attractorPosition displaced) < 1 / 2"
      by auto
    then have "distanceTo (currentPosition (relax 0 (1 / 2) N displaced))
                 (attractorPosition displaced) < 1 / 2"
      by blast
    then show False
      unfolding displaced_relax d by simp
  qed
  moreover have "velocity displaced = mkv 0 0 0"
    by (simp add: displaced_def)
  ultimately show ?thesis by simp
qed

theorem damped_return_converges_witness:
  "0 < (23 / 25 :: real) \<and> (23 / 25 :: real) < 1 \<and> 0 < (23 / 25 :: real) * (1 / 50)
   \<and> (23 / 25 :: real) * (1 / 50) < 2 * (1 + 23 / 25)
   \<and> convergesToAttractor (1 / 50) (23 / 25) displaced
   \<and> velocityDecays (1 / 50) (23 / 25) displaced"
proof -
  have h1: "0 < (23 / 25 :: real)" and h2: "(23 / 25 :: real) < 1"
    and h3: "0 < (23 / 25 :: real) * (1 / 50)"
    and h4: "(23 / 25 :: real) * (1 / 50) < 2 * (1 + 23 / 25)"
    by simp_all
  from damped_return_converges [OF h1 h2 h3 h4, of displaced] h1 h2 h3 h4
  show ?thesis by blast
qed

end
